(* ===== verification/Prelude.thy ===== *)
theory Prelude
  imports Main "HOL-Library.Word" "HOL-Library.AList"
begin

text \<open>
  Shared vocabulary of the development: the machine integer types of the Go program, the
  representation of Go maps as association lists with distinct keys, the theorem collections
  the component theories add to, and the generic lemmas they share.
\<close>

section \<open>Integer types\<close>

type_synonym u64 = "64 word"
type_synonym u32 = "32 word"

text \<open>
  Go's \<^verbatim>\<open>int\<close> and \<^verbatim>\<open>int64\<close> are 64-bit two's complement integers on every platform the
  program supports. They are modelled as \<^typ>\<open>int\<close> with the wrap-around of an addition or a
  multiplication written out by \<open>wrap64\<close>.
\<close>

type_synonym go_int = int

definition wrap64 :: "int \<Rightarrow> int" where
  "wrap64 x = (x + 2 ^ 63) mod 2 ^ 64 - 2 ^ 63"

definition int_add :: "go_int \<Rightarrow> go_int \<Rightarrow> go_int" where
  "int_add a b = wrap64 (a + b)"

section \<open>Go maps\<close>

text \<open>
  A Go map is an association list with at most one entry per key. \<open>gmap_wf\<close> is that
  invariant; reads are \<^const>\<open>map_of\<close>, assignment is \<^const>\<open>AList.update\<close>, the builtin
  \<^verbatim>\<open>delete\<close> is \<^const>\<open>AList.delete\<close>, and \<^verbatim>\<open>len\<close> is \<^const>\<open>length\<close>. Go leaves the iteration
  order of a map open; no property of the development depends on the order of the list.
\<close>

type_synonym ('k, 'v) gmap = "('k \<times> 'v) list"

definition gmap_wf :: "('k, 'v) gmap \<Rightarrow> bool" where
  "gmap_wf m \<longleftrightarrow> distinct (map fst m)"

abbreviation gmap_keys :: "('k, 'v) gmap \<Rightarrow> 'k set" where
  "gmap_keys m \<equiv> fst ` set m"

text \<open>\<^verbatim>\<open>m[k]++\<close> on a map of integers, whose absent entries read as zero.\<close>

definition gmap_count :: "('k, nat) gmap \<Rightarrow> 'k \<Rightarrow> nat" where
  "gmap_count m k = (case map_of m k of None \<Rightarrow> 0 | Some n \<Rightarrow> n)"

definition gmap_inc :: "'k \<Rightarrow> ('k, nat) gmap \<Rightarrow> ('k, nat) gmap" where
  "gmap_inc k m = AList.update k (gmap_count m k + 1) m"

section \<open>Theorem collections\<close>

named_theorems gmap_simps \<open>reads and key sets after map operations\<close>
named_theorems wf_intros \<open>operations preserve well-formedness\<close>

section \<open>Integers\<close>

lemma wrap64_id: "- (2 ^ 63) \<le> x \<Longrightarrow> x < 2 ^ 63 \<Longrightarrow> wrap64 x = x"
  by (simp add: wrap64_def)

lemma wrap64_range: "- (2 ^ 63) \<le> wrap64 x \<and> wrap64 x < 2 ^ 63"
  by (simp add: wrap64_def)

lemma unat_add_no_overflow:
  fixes a b :: u64
  assumes "unat a + unat b < 2 ^ 64"
  shows "unat (a + b) = unat a + unat b"
  using assms by (simp add: unat_word_ariths)

lemma unat_add_le_of_no_overflow:
  fixes a b :: u64
  assumes "unat a + unat b < 2 ^ 64"
  shows "a \<le> a + b"
  using assms by (simp add: word_le_nat_alt unat_add_no_overflow)

lemma u64_suc:
  fixes g :: u64
  assumes "unat g + 1 < 2 ^ 64"
  shows "unat (g + 1) = unat g + 1" and "g < g + 1"
proof -
  from assms show "unat (g + 1) = unat g + 1"
    by (simp add: unat_word_ariths)
  then show "g < g + 1"
    by (simp add: word_less_nat_alt)
qed

section \<open>Association lists as maps\<close>

lemma gmap_wf_empty [simp]: "gmap_wf []"
  by (simp add: gmap_wf_def)

lemma gmap_wf_update [wf_intros]: "gmap_wf m \<Longrightarrow> gmap_wf (AList.update k v m)"
  by (simp add: gmap_wf_def distinct_update)

lemma gmap_wf_delete [wf_intros]: "gmap_wf m \<Longrightarrow> gmap_wf (AList.delete k m)"
  by (simp add: gmap_wf_def distinct_delete)

lemma gmap_wf_filter [wf_intros]: "gmap_wf m \<Longrightarrow> gmap_wf (filter P m)"
  by (simp add: gmap_wf_def distinct_map_filter)

lemma gmap_wf_inc [wf_intros]: "gmap_wf m \<Longrightarrow> gmap_wf (gmap_inc k m)"
  by (simp add: gmap_inc_def gmap_wf_update)

lemma map_of_update_gmap [gmap_simps]:
  "map_of (AList.update k v m) k' = (if k' = k then Some v else map_of m k')"
  by (simp add: update_conv')

lemma map_of_delete_gmap [gmap_simps]:
  "map_of (AList.delete k m) k' = (if k' = k then None else map_of m k')"
  by (simp add: delete_conv')

lemma gmap_keys_update [gmap_simps]: "gmap_keys (AList.update k v m) = insert k (gmap_keys m)"
  by (simp add: dom_update)

lemma gmap_keys_delete [gmap_simps]: "gmap_keys (AList.delete k m) = gmap_keys m - {k}"
  by (auto simp: AList.delete_eq)

lemma gmap_keys_map_of [gmap_simps]: "gmap_keys m = {k. map_of m k \<noteq> None}"
  by (simp add: dom_map_of_conv_image_fst [symmetric] dom_def)

lemma gmap_count_inc [gmap_simps]:
  "gmap_count (gmap_inc k m) k' = (if k' = k then gmap_count m k + 1 else gmap_count m k')"
  by (simp add: gmap_inc_def gmap_count_def gmap_simps)

lemma gmap_count_empty [simp]: "gmap_count [] k = 0"
  by (simp add: gmap_count_def)

lemma gmap_wf_map_of_iff: "gmap_wf m \<Longrightarrow> map_of m k = Some v \<longleftrightarrow> (k, v) \<in> set m"
  by (simp add: gmap_wf_def)

lemma map_of_filter_gmap:
  assumes "gmap_wf m"
  shows "map_of (filter P m) k =
    (case map_of m k of None \<Rightarrow> None | Some v \<Rightarrow> if P (k, v) then Some v else None)"
  using assms
proof (induction m)
  case Nil
  then show ?case by simp
next
  case (Cons kv m)
  obtain k' v' where kv: "kv = (k', v')" by (cases kv)
  with Cons.prems have "gmap_wf m" and "map_of m k' = None"
    by (auto simp: gmap_wf_def map_of_eq_None_iff)
  with Cons.IH kv show ?case by (auto split: option.splits)
qed

lemma gmap_length_keys: "gmap_wf m \<Longrightarrow> length m = card (gmap_keys m)"
  unfolding gmap_wf_def by (metis distinct_card length_map set_map)

lemma gmap_length_le_card:
  assumes "gmap_wf m" and "gmap_keys m \<subseteq> set xs"
  shows "length m \<le> length xs"
proof -
  have "length m = card (gmap_keys m)" using assms(1) by (rule gmap_length_keys)
  also have "\<dots> \<le> card (set xs)" using assms(2) by (simp add: card_mono)
  also have "\<dots> \<le> length xs" by (rule card_length)
  finally show ?thesis .
qed

end
