(* ===== verification/GoStrings.thy ===== *)
theory GoStrings
  imports Prelude "HOL-Library.Sublist"
begin

text \<open>
  The parts of Go's \<^verbatim>\<open>strings\<close>, \<^verbatim>\<open>strconv\<close> and \<^verbatim>\<open>path/filepath\<close> packages that the program
  calls. A Go string is a sequence of bytes, modelled as HOL's \<^typ>\<open>string\<close>, whose characters
  are bytes.
\<close>

section \<open>Searching and cutting\<close>

definition has_prefix :: "string \<Rightarrow> string \<Rightarrow> bool" where
  "has_prefix s p \<longleftrightarrow> take (length p) s = p"

text \<open>\<^verbatim>\<open>strings.IndexByte\<close>, \<^verbatim>\<open>LastIndexByte\<close> and \<^verbatim>\<open>Index\<close>, with \<^const>\<open>None\<close> for \<open>-1\<close>.\<close>

fun index_byte :: "string \<Rightarrow> char \<Rightarrow> nat option" where
  "index_byte [] c = None"
| "index_byte (x # s) c = (if x = c then Some 0 else map_option Suc (index_byte s c))"

fun last_index_byte :: "string \<Rightarrow> char \<Rightarrow> nat option" where
  "last_index_byte [] c = None"
| "last_index_byte (x # s) c =
     (case last_index_byte s c of Some i \<Rightarrow> Some (Suc i)
      | None \<Rightarrow> if x = c then Some 0 else None)"

fun index_sub :: "string \<Rightarrow> string \<Rightarrow> nat option" where
  "index_sub [] p = (if p = [] then Some 0 else None)"
| "index_sub (x # s) p =
     (if has_prefix (x # s) p then Some 0 else map_option Suc (index_sub s p))"

text \<open>\<^verbatim>\<open>strings.Trim\<close> and \<^verbatim>\<open>TrimRight\<close> with a cutset of ASCII characters.\<close>

definition trim_left_set :: "string \<Rightarrow> string \<Rightarrow> string" where
  "trim_left_set s cs = dropWhile (\<lambda>c. c \<in> set cs) s"

definition trim_right_set :: "string \<Rightarrow> string \<Rightarrow> string" where
  "trim_right_set s cs = rev (dropWhile (\<lambda>c. c \<in> set cs) (rev s))"

definition trim_set :: "string \<Rightarrow> string \<Rightarrow> string" where
  "trim_set s cs = trim_right_set (trim_left_set s cs) cs"

text \<open>\<^verbatim>\<open>strings.Split\<close> with a one-byte separator: \<open>n\<close> separators give \<open>n + 1\<close> parts.\<close>

fun split_byte :: "char \<Rightarrow> string \<Rightarrow> string list" where
  "split_byte sep [] = [[]]"
| "split_byte sep (c # s) =
     (if c = sep then [] # split_byte sep s
      else (case split_byte sep s of [] \<Rightarrow> [[c]] | p # ps \<Rightarrow> (c # p) # ps))"

fun join_with :: "string \<Rightarrow> string list \<Rightarrow> string" where
  "join_with sep [] = []"
| "join_with sep [x] = x"
| "join_with sep (x # y # ys) = x @ sep @ join_with sep (y # ys)"

section \<open>White space\<close>

text \<open>
  \<open>space_len s\<close> is the number of bytes of the white space rune (\<^verbatim>\<open>unicode.IsSpace\<close>) at the
  head of \<open>s\<close>, and 0 when \<open>s\<close> does not start with one: the six ASCII spaces, U+0085, U+00A0,
  U+1680, U+2000 to U+200A, U+2028, U+2029, U+202F, U+205F and U+3000 in UTF-8. The first byte
  of each of these encodings is never a continuation byte, so looking for them byte by byte
  finds the same runes as decoding the string.
\<close>

definition ascii_space :: "nat \<Rightarrow> bool" where
  "ascii_space n \<longleftrightarrow> 9 \<le> n \<and> n \<le> 13 \<or> n = 32"

fun space_codes :: "nat list \<Rightarrow> nat" where
  "space_codes (a # r) =
     (if ascii_space a then 1
      else case r of
        b # r' \<Rightarrow>
          if a = 0xC2 \<and> (b = 0x85 \<or> b = 0xA0) then 2
          else (case r' of
            c # _ \<Rightarrow>
              if a = 0xE1 \<and> b = 0x9A \<and> c = 0x80
                 \<or> a = 0xE2 \<and> b = 0x80 \<and> (0x80 \<le> c \<and> c \<le> 0x8A \<or> c = 0xA8 \<or> c = 0xA9 \<or> c = 0xAF)
                 \<or> a = 0xE2 \<and> b = 0x81 \<and> c = 0x9F
                 \<or> a = 0xE3 \<and> b = 0x80 \<and> c = 0x80
              then 3 else 0
            | [] \<Rightarrow> 0)
      | [] \<Rightarrow> 0)"
| "space_codes [] = 0"

definition space_len :: "string \<Rightarrow> nat" where
  "space_len s = space_codes (map of_char (take 3 s))"

text \<open>The same at the end of a string, which is given reversed.\<close>

definition space_len_rev :: "string \<Rightarrow> nat" where
  "space_len_rev r =
     (if space_len (take 1 r) = 1 then 1
      else if space_len (rev (take 2 r)) = 2 then 2
      else if space_len (rev (take 3 r)) = 3 then 3 else 0)"

function trim_space_left :: "string \<Rightarrow> string" where
  "trim_space_left s =
     (if s = [] \<or> space_len s = 0 then s else trim_space_left (drop (space_len s) s))"
  by pat_completeness auto
termination
  by (relation "measure length") auto

function trim_space_right_rev :: "string \<Rightarrow> string" where
  "trim_space_right_rev r =
     (if r = [] \<or> space_len_rev r = 0 then r
      else trim_space_right_rev (drop (space_len_rev r) r))"
  by pat_completeness auto
termination
  by (relation "measure length") auto

declare trim_space_left.simps [simp del] trim_space_right_rev.simps [simp del]

definition trim_space :: "string \<Rightarrow> string" where
  "trim_space s = rev (trim_space_right_rev (rev (trim_space_left s)))"

text \<open>
  \<^verbatim>\<open>strings.Fields\<close>: the maximal runs of bytes outside white space. \<open>w\<close> is the run being
  read, \<open>k\<close> the number of bytes of a white space rune still to skip.
\<close>

definition emit_word :: "string \<Rightarrow> string list \<Rightarrow> string list" where
  "emit_word w ws = (if w = [] then ws else w # ws)"

fun fields_from :: "string \<Rightarrow> nat \<Rightarrow> string \<Rightarrow> string list" where
  "fields_from w k [] = emit_word w []"
| "fields_from w (Suc k) (c # s) = fields_from w k s"
| "fields_from w 0 (c # s) =
     (case space_len (c # s) of
        0 \<Rightarrow> fields_from (w @ [c]) 0 s
      | Suc k \<Rightarrow> emit_word w (fields_from [] k s))"

definition str_fields :: "string \<Rightarrow> string list" where
  "str_fields s = fields_from [] 0 s"

section \<open>Decimal numbers\<close>

datatype num_err = ErrSyntax | ErrRange

definition digit_val :: "char \<Rightarrow> nat option" where
  "digit_val c = (let n = of_char c in if 48 \<le> n \<and> n \<le> 57 then Some (n - 48) else None)"

definition digit_char :: "nat \<Rightarrow> char" where
  "digit_char d = char_of (48 + d)"

text \<open>
  \<^verbatim>\<open>strconv.ParseUint(s, 10, bits)\<close>, with \<open>max\<close> the greatest value of the width. The value that
  comes with an error is what Go returns: 0 for a syntax error, the greatest value for a range
  error. The scan stops at the first byte that decides.
\<close>

fun parse_uint_from :: "int \<Rightarrow> int \<Rightarrow> string \<Rightarrow> int \<times> num_err option" where
  "parse_uint_from mx n [] = (n, None)"
| "parse_uint_from mx n (c # s) =
     (case digit_val c of
        None \<Rightarrow> (0, Some ErrSyntax)
      | Some d \<Rightarrow>
          let n1 = n * 10 + int d
          in if n1 > mx then (mx, Some ErrRange) else parse_uint_from mx n1 s)"

definition parse_uint :: "int \<Rightarrow> string \<Rightarrow> int \<times> num_err option" where
  "parse_uint mx s = (if s = [] then (0, Some ErrSyntax) else parse_uint_from mx 0 s)"

definition max_u64 :: int where "max_u64 = 18446744073709551615"
definition max_u32 :: int where "max_u32 = 4294967295"

text \<open>\<^verbatim>\<open>strconv.Atoi\<close> on a 64-bit platform.\<close>

definition atoi :: "string \<Rightarrow> go_int \<times> num_err option" where
  "atoi s =
     (case s of
        [] \<Rightarrow> (0, Some ErrSyntax)
      | c # r \<Rightarrow>
          let neg = (c = CHR ''-''); body = (if c = CHR ''-'' \<or> c = CHR ''+'' then r else s)
          in case parse_uint max_u64 body of
               (_, Some ErrSyntax) \<Rightarrow> (0, Some ErrSyntax)
             | (un, _) \<Rightarrow>
                 if \<not> neg \<and> un \<ge> 2 ^ 63 then (2 ^ 63 - 1, Some ErrRange)
                 else if neg \<and> un > 2 ^ 63 then (- (2 ^ 63), Some ErrRange)
                 else (if neg then - un else un, None))"

text \<open>\<^verbatim>\<open>strconv.FormatUint(n, 10)\<close>, and \<^verbatim>\<open>strconv.Itoa\<close> on a number that is not negative.\<close>

fun format_uint :: "nat \<Rightarrow> string" where
  "format_uint n =
     (if n < 10 then [digit_char n] else format_uint (n div 10) @ [digit_char (n mod 10)])"

declare format_uint.simps [simp del]

section \<open>Paths\<close>

text \<open>\<^verbatim>\<open>filepath.Base\<close> on Unix.\<close>

definition path_base :: "string \<Rightarrow> string" where
  "path_base p =
     (if p = [] then ''.''
      else let q = trim_right_set p ''/'';
               b = (case last_index_byte q (CHR ''/'') of Some i \<Rightarrow> drop (Suc i) q | None \<Rightarrow> q)
           in if b = [] then ''/'' else b)"

section \<open>Facts about searching and cutting\<close>

lemma has_prefix_iff: "has_prefix s p \<longleftrightarrow> (\<exists>r. s = p @ r)"
  by (auto simp: has_prefix_def) (metis append_take_drop_id)

lemma last_index_byte_None: "last_index_byte s c = None \<longleftrightarrow> c \<notin> set s"
  by (induction s) (auto split: option.splits)

lemma last_index_byte_Some:
  "last_index_byte s c = Some i \<Longrightarrow> i < length s \<and> s ! i = c \<and> c \<notin> set (drop (Suc i) s)"
proof (induction s arbitrary: i)
  case (Cons x s)
  then show ?case
    by (cases "last_index_byte s c") (auto simp: last_index_byte_None split: if_splits)
qed simp

lemma last_index_byte_append:
  "c \<notin> set r \<Longrightarrow> last_index_byte (s @ c # r) c = Some (length s)"
  by (induction s) (simp_all add: last_index_byte_None [THEN iffD2])

lemma index_byte_append:
  "c \<notin> set s \<Longrightarrow> index_byte (s @ c # r) c = Some (length s)"
  by (induction s) auto

lemma index_byte_Some:
  "index_byte s c = Some i \<Longrightarrow> i < length s \<and> s ! i = c \<and> c \<notin> set (take i s)"
  by (induction s arbitrary: i) (auto split: if_splits)

lemma set_trim_set: "set (trim_set s cs) \<subseteq> set s"
  by (auto simp: trim_set_def trim_left_set_def trim_right_set_def dest!: set_dropWhileD)

lemma length_trim_set: "length (trim_set s cs) \<le> length s"
  by (simp add: trim_set_def trim_left_set_def trim_right_set_def)
     (metis length_dropWhile_le length_rev order_trans)

lemma trim_right_set_prefix: "\<exists>r. s = trim_right_set s cs @ r"
  unfolding trim_right_set_def
  by (metis rev_append rev_rev_ident takeWhile_dropWhile_id)

lemma trim_right_set_last:
  "trim_right_set s cs \<noteq> [] \<Longrightarrow> last (trim_right_set s cs) \<notin> set cs"
  using hd_dropWhile [of "\<lambda>c. c \<in> set cs" "rev s"]
  by (simp only: trim_right_set_def last_rev rev_is_Nil_conv not_False_eq_True simp_thms)

lemma trim_set_ends:
  assumes "trim_set s cs \<noteq> []"
  shows "hd (trim_set s cs) \<notin> set cs" and "last (trim_set s cs) \<notin> set cs"
proof -
  let ?l = "trim_left_set s cs"
  obtain r where r: "?l = trim_set s cs @ r"
    using trim_right_set_prefix [of ?l cs] by (auto simp: trim_set_def)
  with assms have "?l \<noteq> []" and "hd ?l = hd (trim_set s cs)" by auto
  then show "hd (trim_set s cs) \<notin> set cs"
    by (metis hd_dropWhile trim_left_set_def)
  show "last (trim_set s cs) \<notin> set cs"
    using assms by (simp add: trim_set_def trim_right_set_last)
qed

lemma trim_set_fixed:
  assumes "s \<noteq> []" and "hd s \<notin> set cs" and "last s \<notin> set cs"
  shows "trim_set s cs = s"
proof -
  have "trim_left_set s cs = s"
    using assms by (cases s) (simp_all add: trim_left_set_def)
  moreover have "trim_right_set s cs = s"
    using assms by (cases s rule: rev_cases) (simp_all add: trim_right_set_def)
  ultimately show ?thesis by (simp add: trim_set_def)
qed

lemma split_byte_not_Nil [simp]: "split_byte c s \<noteq> []"
  by (cases s) (auto split: list.splits)

lemma join_split_byte: "join_with [c] (split_byte c s) = s"
proof (induction s)
  case (Cons x s)
  obtain p ps where "split_byte c s = p # ps"
    using split_byte_not_Nil [of c s] by (cases "split_byte c s") auto
  with Cons show ?case by (cases ps) auto
qed simp

lemma split_byte_parts: "p \<in> set (split_byte c s) \<Longrightarrow> c \<notin> set p"
  by (induction s arbitrary: p) (auto split: list.splits if_splits)

section \<open>Facts about decimal numbers\<close>

lemma digit_val_digit_char [simp]: "d < 10 \<Longrightarrow> digit_val (digit_char d) = Some d"
  by (simp add: digit_val_def digit_char_def of_char_of)

lemma digit_val_less: "digit_val c = Some d \<Longrightarrow> d < 10"
  by (auto simp: digit_val_def Let_def split: if_splits)

lemma parse_uint_from_append:
  "parse_uint_from mx n s = (m, None) \<Longrightarrow> parse_uint_from mx n (s @ t) = parse_uint_from mx m t"
  by (induction mx n s rule: parse_uint_from.induct) (auto split: option.splits if_splits simp: Let_def)

lemma parse_uint_from_format:
  "int n \<le> mx \<Longrightarrow> parse_uint_from mx 0 (format_uint n) = (int n, None)"
proof (induction n rule: format_uint.induct)
  case (1 n)
  show ?case
  proof (cases "n < 10")
    case True
    with 1 show ?thesis by (simp add: format_uint.simps [of n])
  next
    case False
    have le: "int (n div 10) \<le> mx" using "1.prems" by linarith
    with 1 False have "parse_uint_from mx 0 (format_uint (n div 10)) = (int (n div 10), None)"
      by simp
    from parse_uint_from_append [OF this]
    have "parse_uint_from mx 0 (format_uint n)
      = parse_uint_from mx (int (n div 10)) [digit_char (n mod 10)]"
      using False by (simp add: format_uint.simps [of n])
    moreover have "int (n div 10) * 10 + int (n mod 10) = int n"
      by (metis mult_div_mod_eq mult.commute of_nat_add of_nat_mult of_nat_numeral)
    ultimately show ?thesis using "1.prems" by (simp add: Let_def)
  qed
qed

lemma format_uint_not_Nil [simp]: "format_uint n \<noteq> []"
  by (simp add: format_uint.simps [of n])

lemma parse_format_uint: "int n \<le> mx \<Longrightarrow> parse_uint mx (format_uint n) = (int n, None)"
  by (simp add: parse_uint_def parse_uint_from_format)

lemma parse_uint_from_range:
  "0 \<le> n \<Longrightarrow> n \<le> mx \<Longrightarrow> 0 \<le> fst (parse_uint_from mx n s) \<and> fst (parse_uint_from mx n s) \<le> mx"
  by (induction mx n s rule: parse_uint_from.induct) (auto split: option.splits simp: Let_def)

lemma parse_uint_range: "0 \<le> mx \<Longrightarrow> 0 \<le> fst (parse_uint mx s) \<and> fst (parse_uint mx s) \<le> mx"
  by (simp add: parse_uint_def parse_uint_from_range)

lemma format_uint_digits: "\<forall>c \<in> set (format_uint n). \<exists>d < 10. c = digit_char d"
proof (induction n rule: format_uint.induct)
  case (1 n)
  show ?case
  proof (cases "n < 10")
    case True
    then show ?thesis by (auto simp: format_uint.simps [of n])
  next
    case False
    have "\<exists>d < 10. digit_char (n mod 10) = digit_char d" by (rule exI [of _ "n mod 10"]) simp
    with 1 False show ?thesis by (auto simp: format_uint.simps [of n])
  qed
qed

lemma digit_char_not_sign: "d < 10 \<Longrightarrow> digit_char d \<noteq> CHR ''-'' \<and> digit_char d \<noteq> CHR ''+''"
  by (auto dest: digit_val_digit_char simp: digit_val_def)

lemma format_uint_inj:
  assumes "format_uint m = format_uint n"
  shows "m = n"
proof -
  have "parse_uint (int m + int n) (format_uint m) = (int m, None)"
    and "parse_uint (int m + int n) (format_uint n) = (int n, None)"
    by (rule parse_format_uint, simp)+
  with assms show ?thesis by (metis prod.inject of_nat_eq_iff)
qed

lemma atoi_format_uint:
  assumes "n < 2 ^ 63"
  shows "atoi (format_uint n) = (int n, None)"
proof -
  obtain c r where s: "format_uint n = c # r"
    using format_uint_not_Nil [of n] by (cases "format_uint n") auto
  then have "c \<in> set (format_uint n)" by simp
  with format_uint_digits [of n] obtain d where "d < 10" "c = digit_char d" by metis
  then have c: "c \<noteq> CHR ''-''" "c \<noteq> CHR ''+''" by (simp_all add: digit_char_not_sign)
  have "parse_uint max_u64 (format_uint n) = (int n, None)"
    using assms by (intro parse_format_uint) (simp add: max_u64_def)
  with s c assms show ?thesis by (simp add: atoi_def Let_def)
qed

section \<open>Facts about fields and paths\<close>

lemma fields_from_nonempty: "w \<in> set (fields_from v k s) \<Longrightarrow> w \<noteq> []"
  by (induction v k s rule: fields_from.induct) (auto simp: emit_word_def split: nat.splits if_splits)

lemma path_base_not_Nil: "path_base p \<noteq> []"
  by (simp add: path_base_def Let_def)

lemma path_base_no_slash: "path_base p = ''/'' \<or> CHR ''/'' \<notin> set (path_base p)"
  by (auto simp: path_base_def Let_def last_index_byte_None dest: last_index_byte_Some split: option.splits)

end
