(* ===== verification/Regexp.thy ===== *)
theory Regexp
  imports GoStrings
begin

text \<open>
  The part of Go's \<^verbatim>\<open>regexp\<close> package that runs: the program an expression is compiled to
  (\<^verbatim>\<open>regexp/syntax\<close>), the backtracking matcher with its bit state, and the expansion of
  templates. Text is matched rune by rune over its UTF-8 encoding. Turning the text of a pattern
  into an expression is a parameter of the components that compile patterns.
\<close>

section \<open>Runes\<close>

text \<open>\<^verbatim>\<open>utf8.DecodeRuneInString\<close>: the rune and its width; an invalid byte is U+FFFD, one byte wide.\<close>

definition rune_error :: int where "rune_error = 0xFFFD"

definition cont_byte :: "int \<Rightarrow> bool" where
  "cont_byte b \<longleftrightarrow> 0x80 \<le> b \<and> b \<le> 0xBF"

fun decode_codes :: "int list \<Rightarrow> int \<times> nat" where
  "decode_codes [] = (rune_error, 0)"
| "decode_codes (a # r) =
     (if a < 0x80 then (a, 1)
      else if 0xC2 \<le> a \<and> a \<le> 0xDF then
        (case r of b # _ \<Rightarrow> if cont_byte b then ((a - 0xC0) * 64 + (b - 0x80), 2) else (rune_error, 1)
         | [] \<Rightarrow> (rune_error, 1))
      else if 0xE0 \<le> a \<and> a \<le> 0xEF then
        (case r of b # c # _ \<Rightarrow>
           if cont_byte b \<and> cont_byte c \<and> (a = 0xE0 \<longrightarrow> 0xA0 \<le> b) \<and> (a = 0xED \<longrightarrow> b \<le> 0x9F)
           then ((a - 0xE0) * 4096 + (b - 0x80) * 64 + (c - 0x80), 3) else (rune_error, 1)
         | _ \<Rightarrow> (rune_error, 1))
      else if 0xF0 \<le> a \<and> a \<le> 0xF4 then
        (case r of b # c # d # _ \<Rightarrow>
           if cont_byte b \<and> cont_byte c \<and> cont_byte d
              \<and> (a = 0xF0 \<longrightarrow> 0x90 \<le> b) \<and> (a = 0xF4 \<longrightarrow> b \<le> 0x8F)
           then ((a - 0xF0) * 262144 + (b - 0x80) * 4096 + (c - 0x80) * 64 + (d - 0x80), 4)
           else (rune_error, 1)
         | _ \<Rightarrow> (rune_error, 1))
      else (rune_error, 1))"

definition decode_rune :: "string \<Rightarrow> int \<times> nat" where
  "decode_rune s = decode_codes (map of_char (take 4 s))"

section \<open>Expressions and programs\<close>

text \<open>
  A character class is a list of ranges of runes. The flag of a repetition says that it is
  greedy. \<^verbatim>\<open>x{n,m}\<close> is expanded into these by \<^verbatim>\<open>Simplify\<close>.
\<close>

datatype assertion = BeginText | EndText | WordBoundary | NoWordBoundary

datatype rexp =
    REmpty
  | RClass "(int \<times> int) list"
  | RAssert assertion
  | RCat rexp rexp
  | RAlt rexp rexp
  | RStar bool rexp
  | RPlus bool rexp
  | RQuest bool rexp
  | RCap nat rexp

datatype inst =
    IMatch
  | INop nat
  | IRune "(int \<times> int) list" nat
  | IAssert assertion nat
  | IAlt nat nat
  | ICap nat nat

fun nullable :: "rexp \<Rightarrow> bool" where
  "nullable REmpty = True"
| "nullable (RClass _) = False"
| "nullable (RAssert _) = True"
| "nullable (RCat r s) = (nullable r \<and> nullable s)"
| "nullable (RAlt r s) = (nullable r \<or> nullable s)"
| "nullable (RStar _ _) = True"
| "nullable (RPlus _ r) = nullable r"
| "nullable (RQuest _ _) = True"
| "nullable (RCap _ r) = nullable r"

definition alt_inst :: "bool \<Rightarrow> nat \<Rightarrow> nat \<Rightarrow> inst" where
  "alt_inst greedy body out = (if greedy then IAlt body out else IAlt out body)"

fun code_len :: "rexp \<Rightarrow> nat" where
  "code_len REmpty = 1"
| "code_len (RClass _) = 1"
| "code_len (RAssert _) = 1"
| "code_len (RCat r s) = code_len r + code_len s"
| "code_len (RAlt r s) = code_len r + code_len s + 1"
| "code_len (RStar _ r) = (if nullable r then code_len r + 2 else code_len r + 1)"
| "code_len (RPlus _ r) = code_len r + 1"
| "code_len (RQuest _ r) = code_len r + 1"
| "code_len (RCap _ r) = code_len r + 2"

text \<open>
  \<open>code_of r b k\<close> is the code of \<open>r\<close> placed at address \<open>b\<close>, its entry, which leaves to \<open>k\<close>. A
  starred expression that can be empty is compiled as \<^verbatim>\<open>(x+)?\<close>.
\<close>

fun code_of :: "rexp \<Rightarrow> nat \<Rightarrow> nat \<Rightarrow> inst list" where
  "code_of REmpty b k = [INop k]"
| "code_of (RClass cs) b k = [IRune cs k]"
| "code_of (RAssert a) b k = [IAssert a k]"
| "code_of (RCat r s) b k = code_of r b (b + code_len r) @ code_of s (b + code_len r) k"
| "code_of (RAlt r s) b k =
     IAlt (b + 1) (b + 1 + code_len r) # code_of r (b + 1) k @ code_of s (b + 1 + code_len r) k"
| "code_of (RStar g r) b k =
     (if nullable r
      then alt_inst g (b + 1) k # code_of r (b + 1) (b + 1 + code_len r) @ [alt_inst g (b + 1) k]
      else alt_inst g (b + 1) k # code_of r (b + 1) b)"
| "code_of (RPlus g r) b k = code_of r b (b + code_len r) @ [alt_inst g b k]"
| "code_of (RQuest g r) b k = alt_inst g (b + 1) k # code_of r (b + 1) k"
| "code_of (RCap n r) b k =
     ICap (2 * n) (b + 1) # code_of r (b + 1) (b + 1 + code_len r) @ [ICap (2 * n + 1) k]"

text \<open>A compiled expression: the program, and the names of the groups, the whole match first.\<close>

record regexp =
  rx_prog :: "inst list"
  rx_names :: "string list"

definition regexp_of :: "rexp \<Rightarrow> string list \<Rightarrow> regexp" where
  "regexp_of r names = \<lparr>rx_prog = code_of r 0 (code_len r) @ [IMatch], rx_names = [] # names\<rparr>"

section \<open>Matching\<close>

definition in_class :: "(int \<times> int) list \<Rightarrow> int \<Rightarrow> bool" where
  "in_class cs r \<longleftrightarrow> (\<exists>(lo, hi) \<in> set cs. lo \<le> r \<and> r \<le> hi)"

definition word_char :: "char \<Rightarrow> bool" where
  "word_char c \<longleftrightarrow> (let n = (of_char c :: nat) in 48 \<le> n \<and> n \<le> 57 \<or> 65 \<le> n \<and> n \<le> 90 \<or> 97 \<le> n \<and> n \<le> 122 \<or> n = 95)"

text \<open>Word characters are ASCII, so the neighbouring bytes decide a word boundary.\<close>

definition assertion_holds :: "assertion \<Rightarrow> string \<Rightarrow> nat \<Rightarrow> bool" where
  "assertion_holds a text pos =
     (let w1 = (0 < pos \<and> word_char (text ! (pos - 1)));
          w2 = (pos < length text \<and> word_char (text ! pos))
      in case a of
           BeginText \<Rightarrow> pos = 0
         | EndText \<Rightarrow> pos = length text
         | WordBoundary \<Rightarrow> w1 \<noteq> w2
         | NoWordBoundary \<Rightarrow> w1 = w2)"

text \<open>A job of the backtracker: an address, a position, and the captures on the way there.\<close>

type_synonym job = "nat \<times> nat \<times> int list"

text \<open>
  The jobs that replace a job, in order of preference; \<^const>\<open>None\<close> is a match.
\<close>

definition expand_job :: "inst list \<Rightarrow> string \<Rightarrow> job \<Rightarrow> job list option" where
  "expand_job prog text j =
     (case j of (pc, pos, caps) \<Rightarrow>
       (case prog ! pc of
          IMatch \<Rightarrow> None
        | INop k \<Rightarrow> Some [(k, pos, caps)]
        | IRune cs k \<Rightarrow>
            if pos < length text
            then (case decode_rune (drop pos text) of
                (r, w) \<Rightarrow> Some (if in_class cs r then [(k, pos + w, caps)] else []))
            else Some []
        | IAssert a k \<Rightarrow> Some (if assertion_holds a text pos then [(k, pos, caps)] else [])
        | IAlt a b \<Rightarrow> Some [(a, pos, caps), (b, pos, caps)]
        | ICap n k \<Rightarrow> Some [(k, pos, caps[n := int pos])]))"

text \<open>
  The loop of the backtracker over its stack of jobs. \<open>vis\<close> is the bit state: a pair of an
  address and a position is visited once.
\<close>

function backtrack ::
  "inst list \<Rightarrow> string \<Rightarrow> job list \<Rightarrow> (nat \<times> nat) list \<Rightarrow> (nat \<times> nat) list \<times> int list option" where
  "backtrack prog text [] vis = (vis, None)"
| "backtrack prog text ((pc, pos, caps) # js) vis =
     (if pc < length prog \<and> pos \<le> length text \<and> (pc, pos) \<notin> set vis
      then (case expand_job prog text (pc, pos, caps) of
          None \<Rightarrow> ((pc, pos) # vis, Some (caps[1 := int pos]))
        | Some new \<Rightarrow> backtrack prog text (new @ js) ((pc, pos) # vis))
      else backtrack prog text js vis)"
  by pat_completeness auto

definition unvisited :: "inst list \<Rightarrow> string \<Rightarrow> (nat \<times> nat) list \<Rightarrow> nat" where
  "unvisited prog text vis = card ({..<length prog} \<times> {..length text} - set vis)"

lemma unvisited_less:
  assumes "pc < length prog" and "pos \<le> length text" and "(pc, pos) \<notin> set vis"
  shows "unvisited prog text ((pc, pos) # vis) < unvisited prog text vis"
  unfolding unvisited_def using assms by (intro psubset_card_mono) auto

termination backtrack
  by (relation "measures [\<lambda>(prog, text, js, vis). unvisited prog text vis,
                          \<lambda>(prog, text, js, vis). length js]")
     (auto simp: unvisited_less)

declare backtrack.simps(2) [simp del]

text \<open>
  The unanchored search: every position where a rune starts, and the end of the text, in order.
\<close>

function search_from ::
  "regexp \<Rightarrow> string \<Rightarrow> nat \<Rightarrow> (nat \<times> nat) list \<Rightarrow> int list option" where
  "search_from re text pos vis =
     (let caps = (replicate (2 * length (rx_names re)) (- 1))[0 := int pos]
      in case backtrack (rx_prog re) text [(0, pos, caps)] vis of
           (_, Some m) \<Rightarrow> Some m
         | (vis', None) \<Rightarrow>
             if pos < length text
             then search_from re text (pos + max 1 (snd (decode_rune (drop pos text)))) vis'
             else None)"
  by pat_completeness auto
termination
  by (relation "measure (\<lambda>(re, text, pos, vis). Suc (length text) - pos)") auto

declare search_from.simps [simp del]

text \<open>\<^verbatim>\<open>FindStringSubmatchIndex\<close> and \<^verbatim>\<open>MatchString\<close>.\<close>

definition find_submatch_index :: "regexp \<Rightarrow> string \<Rightarrow> int list option" where
  "find_submatch_index re text = search_from re text 0 []"

definition match_string :: "regexp \<Rightarrow> string \<Rightarrow> bool" where
  "match_string re text \<longleftrightarrow> find_submatch_index re text \<noteq> None"

section \<open>Templates\<close>

definition name_char :: "char \<Rightarrow> bool" where
  "name_char c \<longleftrightarrow> word_char c"

text \<open>
  \<^verbatim>\<open>extract\<close>: the name after a dollar sign, its number if it is one, and the rest. Letters and
  digits of names are ASCII here.
\<close>

fun name_number :: "int \<Rightarrow> string \<Rightarrow> int" where
  "name_number n [] = n"
| "name_number n (c # s) =
     (case digit_val c of
        None \<Rightarrow> - 1
      | Some d \<Rightarrow> if 100000000 \<le> n then - 1 else name_number (n * 10 + int d) s)"

definition extract_name :: "string \<Rightarrow> (string \<times> int \<times> string) option" where
  "extract_name str =
     (let brace = (str \<noteq> [] \<and> hd str = CHR ''{'');
          s = (if brace then tl str else str);
          name = takeWhile name_char s;
          after = dropWhile name_char s;
          num = (if hd name = CHR ''0'' \<and> 1 < length name then - 1 else name_number 0 name)
      in if name = [] then None
         else if brace then
           (case after of [] \<Rightarrow> None
            | c # r \<Rightarrow> if c = CHR ''}'' then Some (name, num, r) else None)
         else Some (name, num, after))"

lemma extract_name_shorter: "extract_name str = Some (name, num, r) \<Longrightarrow> length r < length str"
proof -
  assume ex: "extract_name str = Some (name, num, r)"
  let ?s = "if str \<noteq> [] \<and> hd str = CHR ''{'' then tl str else str"
  have le: "length ?s \<le> length str" by simp
  have ne: "takeWhile name_char ?s \<noteq> []"
    using ex by (auto simp: extract_name_def Let_def split: if_splits list.splits)
  have r: "length r \<le> length (dropWhile name_char ?s)"
    using ex by (auto simp: extract_name_def Let_def split: if_splits list.splits)
  have "length (takeWhile name_char ?s) + length (dropWhile name_char ?s) = length ?s"
    by (metis length_append takeWhile_dropWhile_id)
  moreover have "0 < length (takeWhile name_char ?s)" using ne by simp
  ultimately show ?thesis using r le by linarith
qed

definition group_text :: "string \<Rightarrow> int list \<Rightarrow> nat \<Rightarrow> string option" where
  "group_text src m i =
     (if 2 * i + 1 < length m \<and> 0 \<le> m ! (2 * i)
      then Some (take (nat (m ! (2 * i + 1)) - nat (m ! (2 * i))) (drop (nat (m ! (2 * i))) src))
      else None)"

definition named_group :: "string list \<Rightarrow> string \<Rightarrow> string \<Rightarrow> int list \<Rightarrow> string" where
  "named_group names name src m =
     (case find (\<lambda>i. names ! i = name \<and> group_text src m i \<noteq> None) [0..<length names] of
        None \<Rightarrow> [] | Some i \<Rightarrow> (case group_text src m i of None \<Rightarrow> [] | Some t \<Rightarrow> t))"

text \<open>\<^verbatim>\<open>ExpandString\<close>.\<close>

function expand_template :: "string list \<Rightarrow> string \<Rightarrow> string \<Rightarrow> int list \<Rightarrow> string" where
  "expand_template names [] src m = []"
| "expand_template names (c # t) src m =
     (if c \<noteq> CHR ''$'' then c # expand_template names t src m
      else if t \<noteq> [] \<and> hd t = CHR ''$'' then CHR ''$'' # expand_template names (tl t) src m
      else case extract_name t of
        None \<Rightarrow> CHR ''$'' # expand_template names t src m
      | Some (name, num, r) \<Rightarrow>
          (if 0 \<le> num then (case group_text src m (nat num) of None \<Rightarrow> [] | Some x \<Rightarrow> x)
           else named_group names name src m)
          @ expand_template names r src m)"
  by pat_completeness auto
termination
  by (relation "measure (\<lambda>(names, t, src, m). length t)") (auto dest: extract_name_shorter)

section \<open>Lemmas\<close>

lemma length_code_of [simp]: "length (code_of r b k) = code_len r"
  by (induction r arbitrary: b k) simp_all

lemma decode_rune_width: "s \<noteq> [] \<Longrightarrow> 0 < snd (decode_rune s)"
  by (cases s) (auto simp: decode_rune_def split: list.split)

end
