(* ===== verification/Config.thy ===== *)
theory Config
  imports GoStrings Regexp
begin

text \<open>
  \<^verbatim>\<open>internal/config/config.go\<close>, \<^verbatim>\<open>defaults.go\<close> and the pure part of \<^verbatim>\<open>load.go\<close>: the
  configuration, its defaults, its normalisation and its validation. Durations are nanoseconds.
  A slice is \<^const>\<open>None\<close> when it is nil, which the program tells apart from an empty one.
\<close>

section \<open>The configuration\<close>

type_synonym duration = go_int
type_synonym 'a slice = "'a list option"

definition second :: duration where "second = 1000000000"
definition millisecond :: duration where "millisecond = 1000000"

definition elems :: "'a slice \<Rightarrow> 'a list" where
  "elems s = (case s of None \<Rightarrow> [] | Some xs \<Rightarrow> xs)"

record scan_config =
  c_interval :: duration
  c_batch_size :: go_int
  c_batch_sleep :: duration
  c_fd_scan_every :: go_int
  c_read_smaps :: bool
  c_smaps_scan_every :: go_int
  c_read_io :: bool
  c_read_status :: bool
  c_cache_cmdline :: bool
  c_group_retention :: duration
  c_proc_path :: string

record filter_config =
  c_ignore_kernel_threads :: bool
  c_ignore_comm :: "string slice"
  c_ignore_comm_prefix :: "string slice"
  c_ignore_comm_regex :: "string slice"
  c_ignore_cmdline_regex :: "string slice"
  c_ignore_users :: "string slice"
  c_include_only :: "string slice"

record naming_rule =
  r_match_comm :: string
  r_match_comm_prefix :: string
  r_match_comm_regex :: string
  r_match_exe_regex :: string
  r_from :: string
  r_regex :: string
  r_name :: string

record naming_config =
  c_fallback :: string
  c_resolve_users :: bool
  c_rules :: "naming_rule slice"

record server_config =
  c_listen :: string
  c_metrics_path :: string

record log_config =
  c_level :: string
  c_format :: string

record config =
  c_scan :: scan_config
  c_filter :: filter_config
  c_naming :: naming_config
  c_server :: server_config
  c_log :: log_config

definition needs_cmdline :: "filter_config \<Rightarrow> bool" where
  "needs_cmdline f \<longleftrightarrow>
     0 < length (elems (c_ignore_cmdline_regex f)) \<or> c_ignore_kernel_threads f
     \<or> 0 < length (elems (c_include_only f))"

section \<open>Defaults\<close>

definition default_ignore_comm :: "string list" where
  "default_ignore_comm =
    [''kthreadd'', ''rcu_gp'', ''rcu_par_gp'', ''rcu_sched'', ''rcu_bh'', ''rcu_tasks_kthre'',
     ''rcu_tasks_rude_'', ''rcu_tasks_trace'', ''kdevtmpfs'', ''kauditd'', ''khungtaskd'',
     ''oom_reaper'', ''writeback'', ''kcompactd0'', ''ksmd'', ''khugepaged'', ''kswapd0'',
     ''kblockd'', ''kintegrityd'', ''blkcg_punt_bio'', ''tpm_dev_wq'', ''ata_sff'', ''md'',
     ''edac-poller'', ''devfreq_wq'', ''watchdogd'', ''kthrotld'', ''ipv6_addrconf'', ''kstrp'',
     ''charger_manager'', ''acpi_thermal_pm'', ''mld'', ''jbd2'', ''ext4-rsv-conver'', ''netns'',
     ''kaluad'', ''kmpath_rdacd'', ''kmpathd'', ''kmpath_handlerd'', ''nvme-wq'',
     ''nvme-reset-wq'', ''nvme-delete-wq'', ''cryptd'', ''raid5wq'', ''dm_bufio_cache'',
     ''vfio-irqfd-clea'', ''zswap-shrink'', ''kworker'']"

definition default_ignore_comm_prefix :: "string list" where
  "default_ignore_comm_prefix =
    [''kworker/'', ''ksoftirqd/'', ''migration/'', ''watchdog/'', ''irq/'', ''cpuhp/'',
     ''idle_inject/'', ''scsi_eh_'', ''scsi_tmf_'', ''nfsd'', ''loop'', ''xfsalloc'', ''xfs-'',
     ''jbd2/'', ''ext4-'', ''card0-crtc'', ''ttm_swap'', ''kdmflush'']"

definition default_ignore_comm_regex :: "string list" where
  "default_ignore_comm_regex = [''^kworker/u?[0-9]+:[0-9]+'']"

text \<open>The patterns of the rules, cut at their backslashes.\<close>

definition backslashed :: "string list \<Rightarrow> string" where
  "backslashed ps = join_with [CHR 0x5C] ps"

definition default_naming_rules :: "naming_rule list" where
  "default_naming_rules =
    [naming_rule.make ''java'' [] [] []
        ''cmdline''
        (backslashed [''-jar'', ''s+'', ''S*?([^/'', ''s]+)'', ''.jar'']) ''java/$1'',
     naming_rule.make ''java'' [] [] []
        ''cmdline''
        (backslashed [[], ''s([a-zA-Z][a-zA-Z0-9_]*(?:'', ''.[a-zA-Z0-9_]+)*'', ''.[A-Z][a-zA-Z0-9_]*)(?:'', ''s|$)'']) ''java/$1'',
     naming_rule.make [] ''python'' [] []
        ''cmdline''
        (backslashed [''([^/'', ''s]+)'', ''.py'']) ''python/$1'',
     naming_rule.make ''node'' [] [] []
        ''cmdline''
        (backslashed [''([^/'', ''s]+)'', ''.js'']) ''node/$1'',
     naming_rule.make ''ruby'' [] [] []
        ''cmdline''
        (backslashed [''([^/'', ''s]+)'', ''.rb'']) ''ruby/$1'',
     naming_rule.make ''systemd'' [] [] []
        ''cmdline''
        ''(--user)'' ''systemd-user'',
     naming_rule.make [] ''containerd-shim'' [] []
        []
        [] ''containerd-shim'',
     naming_rule.make [] ''runc'' [] []
        []
        [] ''runc'']"

definition default_config :: config where
  "default_config = \<lparr>
     c_scan = \<lparr>c_interval = 5 * second, c_batch_size = 50, c_batch_sleep = 4 * millisecond,
       c_fd_scan_every = 12, c_read_smaps = True, c_smaps_scan_every = 12, c_read_io = True,
       c_read_status = True, c_cache_cmdline = True, c_group_retention = 3600 * second,
       c_proc_path = ''/proc''\<rparr>,
     c_filter = \<lparr>c_ignore_kernel_threads = True, c_ignore_comm = None,
       c_ignore_comm_prefix = None, c_ignore_comm_regex = None, c_ignore_cmdline_regex = Some [],
       c_ignore_users = Some [], c_include_only = Some []\<rparr>,
     c_naming = \<lparr>c_fallback = ''comm'', c_resolve_users = True, c_rules = None\<rparr>,
     c_server = \<lparr>c_listen = ''0.0.0.0:9256'', c_metrics_path = ''/metrics''\<rparr>,
     c_log = \<lparr>c_level = ''info'', c_format = ''json''\<rparr>\<rparr>"

section \<open>Normalisation\<close>

definition or_default :: "'a list \<Rightarrow> 'a slice \<Rightarrow> 'a slice" where
  "or_default d s = (case s of None \<Rightarrow> Some d | Some xs \<Rightarrow> Some xs)"

definition non_empty :: "string \<Rightarrow> string \<Rightarrow> string" where
  "non_empty d s = (if s = [] then d else s)"

definition normalise :: "config \<Rightarrow> config" where
  "normalise c = c\<lparr>
     c_filter := (c_filter c)\<lparr>
       c_ignore_comm := or_default default_ignore_comm (c_ignore_comm (c_filter c)),
       c_ignore_comm_prefix := or_default default_ignore_comm_prefix (c_ignore_comm_prefix (c_filter c)),
       c_ignore_comm_regex := or_default default_ignore_comm_regex (c_ignore_comm_regex (c_filter c))\<rparr>,
     c_scan := (c_scan c)\<lparr>c_proc_path := non_empty ''/proc'' (c_proc_path (c_scan c))\<rparr>,
     c_naming := (c_naming c)\<lparr>
       c_fallback := non_empty ''comm'' (c_fallback (c_naming c)),
       c_rules := map_option (map (\<lambda>r. r\<lparr>r_from := non_empty ''cmdline'' (r_from r)\<rparr>))
         (or_default default_naming_rules (c_rules (c_naming c)))\<rparr>,
     c_server := (c_server c)\<lparr>c_metrics_path := non_empty ''/metrics'' (c_metrics_path (c_server c))\<rparr>\<rparr>"

section \<open>Validation\<close>

text \<open>One constructor per problem \<^verbatim>\<open>Validate\<close> adds; a number is the index in the list.\<close>

datatype config_error =
    IntervalTooShort | BatchSizeTooSmall | BatchSizeTooLarge | BatchSleepNegative
  | BatchSleepTooLong | FDScanEveryTooSmall | SmapsScanEveryTooSmall | RetentionNegative
  | ProcPathEmpty | ProcPathUnreadable | ProcPathNotDir | ScanExceedsInterval
  | BadIgnoreCommRegex nat | BadIgnoreCmdlineRegex nat | BadIncludeOnly nat
  | BadFallback | RuleNoMatch nat | RuleNoName nat | RuleBadFrom nat
  | RuleBadCommRegex nat | RuleBadExeRegex nat | RuleBadRegex nat | RuleGroupWithoutRegex nat
  | ListenEmpty | MetricsPathNoSlash | BadLogLevel | BadLogFormat

text \<open>What \<^verbatim>\<open>os.Stat\<close> says of the process path.\<close>

datatype path_stat = StatFails | StatDir | StatNotDir

text \<open>\<^verbatim>\<open>regexp.Compile\<close>: an error text or the compiled expression.\<close>

type_synonym compiler = "string \<Rightarrow> string + regexp"

definition compiles :: "compiler \<Rightarrow> string \<Rightarrow> bool" where
  "compiles rc p = (case rc p of Inl _ \<Rightarrow> False | Inr _ \<Rightarrow> True)"

definition check :: "bool \<Rightarrow> config_error \<Rightarrow> config_error list" where
  "check bad e = (if bad then [e] else [])"

definition bad_patterns :: "compiler \<Rightarrow> (nat \<Rightarrow> config_error) \<Rightarrow> string list \<Rightarrow> config_error list" where
  "bad_patterns rc e ps = concat (map (\<lambda>(i, p). check (\<not> compiles rc p) (e i)) (enumerate 0 ps))"

definition validate_scan :: "(string \<Rightarrow> path_stat) \<Rightarrow> scan_config \<Rightarrow> config_error list" where
  "validate_scan stat_path s =
     check (c_interval s < second) IntervalTooShort
     @ check (c_batch_size s < 1) BatchSizeTooSmall
     @ check (c_batch_size s > 10000) BatchSizeTooLarge
     @ check (c_batch_sleep s < 0) BatchSleepNegative
     @ check (c_batch_sleep s > second) BatchSleepTooLong
     @ check (c_fd_scan_every s < 1) FDScanEveryTooSmall
     @ check (c_smaps_scan_every s < 1) SmapsScanEveryTooSmall
     @ check (c_group_retention s < 0) RetentionNegative
     @ (if c_proc_path s = [] then [ProcPathEmpty]
        else case stat_path (c_proc_path s) of
          StatFails \<Rightarrow> [ProcPathUnreadable] | StatNotDir \<Rightarrow> [ProcPathNotDir] | StatDir \<Rightarrow> [])
     @ check (c_batch_size s > 0
              \<and> wrap64 ((2000 div c_batch_size s) * c_batch_sleep s) > c_interval s) ScanExceedsInterval"

definition validate_rule :: "compiler \<Rightarrow> nat \<Rightarrow> naming_rule \<Rightarrow> config_error list" where
  "validate_rule rc i r =
     check (\<not> (r_match_comm r \<noteq> [] \<or> r_match_comm_prefix r \<noteq> [] \<or> r_match_comm_regex r \<noteq> []
               \<or> r_match_exe_regex r \<noteq> [])) (RuleNoMatch i)
     @ check (r_name r = []) (RuleNoName i)
     @ check (r_from r \<notin> set [''comm'', ''exe'', ''cmdline'', []]) (RuleBadFrom i)
     @ check (r_match_comm_regex r \<noteq> [] \<and> \<not> compiles rc (r_match_comm_regex r)) (RuleBadCommRegex i)
     @ check (r_match_exe_regex r \<noteq> [] \<and> \<not> compiles rc (r_match_exe_regex r)) (RuleBadExeRegex i)
     @ check (r_regex r \<noteq> [] \<and> \<not> compiles rc (r_regex r)) (RuleBadRegex i)
     @ check (r_regex r = [] \<and> CHR ''$'' \<in> set (r_name r)) (RuleGroupWithoutRegex i)"

definition validate :: "compiler \<Rightarrow> (string \<Rightarrow> path_stat) \<Rightarrow> config \<Rightarrow> config_error list" where
  "validate rc stat_path c =
     validate_scan stat_path (c_scan c)
     @ bad_patterns rc BadIgnoreCommRegex (elems (c_ignore_comm_regex (c_filter c)))
     @ bad_patterns rc BadIgnoreCmdlineRegex (elems (c_ignore_cmdline_regex (c_filter c)))
     @ bad_patterns rc BadIncludeOnly (elems (c_include_only (c_filter c)))
     @ check (c_fallback (c_naming c) \<notin> set [''comm'', ''exe_basename'', ''cmdline_basename'']) BadFallback
     @ concat (map (\<lambda>(i, r). validate_rule rc i r) (enumerate 0 (elems (c_rules (c_naming c)))))
     @ check (c_listen (c_server c) = []) ListenEmpty
     @ check (\<not> has_prefix (c_metrics_path (c_server c)) ''/'') MetricsPathNoSlash
     @ check (c_level (c_log c) \<notin> set [''debug'', ''info'', ''warn'', ''error'']) BadLogLevel
     @ check (c_format (c_log c) \<notin> set [''json'', ''text'']) BadLogFormat"

section \<open>Comparison\<close>

text \<open>A nil receiver or argument is \<^const>\<open>None\<close>.\<close>

definition config_equal :: "config option \<Rightarrow> config option \<Rightarrow> bool" where
  "config_equal c d = (c = d)"

definition naming_changed :: "config option \<Rightarrow> config option \<Rightarrow> bool" where
  "naming_changed c d =
     (case (c, d) of (Some c', Some d') \<Rightarrow> c_naming c' \<noteq> c_naming d' | _ \<Rightarrow> True)"

section \<open>Lemmas\<close>

lemma check_Nil [simp]: "check bad e = [] \<longleftrightarrow> \<not> bad"
  by (simp add: check_def)

lemma or_default_idem [simp]: "or_default d (or_default d s) = or_default d s"
  by (simp add: or_default_def split: option.split)

lemma non_empty_idem [simp]: "d \<noteq> [] \<Longrightarrow> non_empty d (non_empty d s) = non_empty d s"
  by (simp add: non_empty_def)

lemma or_default_rules [simp]:
  "or_default d (map_option f (or_default d s)) = map_option f (or_default d s)"
  by (simp add: or_default_def split: option.split)

lemma rule_from_idem [simp]:
  "map_option (map (\<lambda>r. r\<lparr>r_from := non_empty ''cmdline'' (r_from r)\<rparr>))
     (map_option (map (\<lambda>r. r\<lparr>r_from := non_empty ''cmdline'' (r_from r)\<rparr>)) s)
   = map_option (map (\<lambda>r. r\<lparr>r_from := non_empty ''cmdline'' (r_from r)\<rparr>)) s"
  by (cases s) simp_all

lemma set_enumerate_snd: "(\<exists>i. (i, x) \<in> set (enumerate 0 xs)) \<longleftrightarrow> x \<in> set xs"
  by (metis imageE imageI map_snd_enumerate prod.collapse set_map snd_conv)

lemma bad_patterns_Nil: "bad_patterns rc e ps = [] \<longleftrightarrow> (\<forall>p \<in> set ps. compiles rc p)"
  using set_enumerate_snd [of _ ps] by (fastforce simp: bad_patterns_def)

lemma validate_rules_Nil:
  "concat (map (\<lambda>(i, r). validate_rule rc i r) (enumerate 0 rs)) = []
    \<longleftrightarrow> (\<forall>r \<in> set rs. validate_rule rc 0 r = [])"
proof -
  have "validate_rule rc i r = [] \<longleftrightarrow> validate_rule rc 0 r = []" for i r
    by (simp add: validate_rule_def)
  then show ?thesis using set_enumerate_snd [of _ rs] by fastforce
qed

text \<open>
  Normalising a configuration twice changes nothing more: every default that is filled in is
  itself in normal form.
\<close>

lemma normalise_idempotent: "normalise (normalise c) = normalise c"
  by (simp add: normalise_def)

end
