(* ===== verification/ProcFilter.thy ===== *)
theory ProcFilter
  imports Config
begin

text \<open>
  \<^verbatim>\<open>internal/filter/filter.go\<close>: the compiled filter and its decision. The documented order of
  the rules is stated as the list \<open>exclusions\<close>, of which the decision takes the first that holds.
\<close>

section \<open>The filter\<close>

text \<open>The two maps of the code, whose values are all true, are the lists of their keys.\<close>

record proc_filter =
  f_ignore_kernel :: bool
  f_ignore_comm :: "string list"
  f_ignore_prefix :: "string list"
  f_ignore_regex :: "regexp list"
  f_ignore_cmd :: "regexp list"
  f_ignore_users :: "string list"
  f_include_only :: "regexp list"
  f_needs_cmdline :: bool

text \<open>The error of \<^verbatim>\<open>New\<close>: the list, the index and the text of the pattern that does not compile.\<close>

datatype filter_error = BadPattern string nat string

fun compile_patterns :: "compiler \<Rightarrow> string \<Rightarrow> nat \<Rightarrow> string list \<Rightarrow> filter_error + regexp list" where
  "compile_patterns rc what i [] = Inr []"
| "compile_patterns rc what i (p # ps) =
     (case rc p of
        Inl _ \<Rightarrow> Inl (BadPattern what i p)
      | Inr re \<Rightarrow>
         (case compile_patterns rc what (i + 1) ps of Inl e \<Rightarrow> Inl e | Inr res \<Rightarrow> Inr (re # res)))"

definition filter_new :: "compiler \<Rightarrow> filter_config \<Rightarrow> filter_error + proc_filter" where
  "filter_new rc cfg =
     (case compile_patterns rc ''ignore_comm_regex'' 0 (elems (c_ignore_comm_regex cfg)) of
        Inl e \<Rightarrow> Inl e
      | Inr comm_res \<Rightarrow>
     (case compile_patterns rc ''ignore_cmdline_regex'' 0 (elems (c_ignore_cmdline_regex cfg)) of
        Inl e \<Rightarrow> Inl e
      | Inr cmd_res \<Rightarrow>
     (case compile_patterns rc ''include_only'' 0 (elems (c_include_only cfg)) of
        Inl e \<Rightarrow> Inl e
      | Inr inc_res \<Rightarrow>
          Inr \<lparr>f_ignore_kernel = c_ignore_kernel_threads cfg,
             f_ignore_comm = elems (c_ignore_comm cfg),
             f_ignore_prefix = elems (c_ignore_comm_prefix cfg),
             f_ignore_regex = comm_res, f_ignore_cmd = cmd_res,
             f_ignore_users = elems (c_ignore_users cfg), f_include_only = inc_res,
             f_needs_cmdline = needs_cmdline cfg\<rparr>)))"

record filter_input =
  fi_comm :: string
  fi_cmdline :: "string list"
  fi_user :: string
  fi_ppid :: go_int
  fi_is_kernel :: bool

definition keep :: "proc_filter \<Rightarrow> filter_input \<Rightarrow> bool \<times> string" where
  "keep f i =
     (let joined = (if 0 < length (fi_cmdline i) then join_with '' '' (fi_cmdline i) else fi_comm i);
          hit = (\<exists>re \<in> set (f_include_only f). match_string re (fi_comm i) \<or> match_string re joined)
      in if 0 < length (f_include_only f) \<and> \<not> hit then (False, ''include_only'')
         else if f_ignore_kernel f \<and> fi_is_kernel i then (False, ''kernel_thread'')
         else if fi_comm i \<in> set (f_ignore_comm f) then (False, ''ignore_comm'')
         else if \<exists>p \<in> set (f_ignore_prefix f). has_prefix (fi_comm i) p then (False, ''ignore_comm_prefix'')
         else if \<exists>re \<in> set (f_ignore_regex f). match_string re (fi_comm i) then (False, ''ignore_comm_regex'')
         else if 0 < length (f_ignore_cmd f) \<and> 0 < length (fi_cmdline i)
                 \<and> (\<exists>re \<in> set (f_ignore_cmd f). match_string re (join_with '' '' (fi_cmdline i)))
              then (False, ''ignore_cmdline_regex'')
         else if fi_user i \<noteq> [] \<and> fi_user i \<in> set (f_ignore_users f) then (False, ''ignore_users'')
         else (True, []))"

definition is_kernel_thread :: "string list \<Rightarrow> go_int \<Rightarrow> bool" where
  "is_kernel_thread cmdline ppid \<longleftrightarrow> length cmdline = 0 \<or> ppid = 2"

section \<open>The documented rules\<close>

text \<open>
  Section 6.2 of the technical specification: the rules in order, each with the reason it gives
  and the condition under which it excludes a process.
\<close>

definition command_text :: "filter_input \<Rightarrow> string" where
  "command_text i = (if fi_cmdline i = [] then fi_comm i else join_with '' '' (fi_cmdline i))"

definition exclusions :: "proc_filter \<Rightarrow> filter_input \<Rightarrow> (string \<times> bool) list" where
  "exclusions f i =
     [(''include_only'', f_include_only f \<noteq> [] \<and>
         (\<forall>re \<in> set (f_include_only f). \<not> match_string re (fi_comm i) \<and> \<not> match_string re (command_text i))),
      (''kernel_thread'', f_ignore_kernel f \<and> fi_is_kernel i),
      (''ignore_comm'', fi_comm i \<in> set (f_ignore_comm f)),
      (''ignore_comm_prefix'', \<exists>p \<in> set (f_ignore_prefix f). \<exists>r. fi_comm i = p @ r),
      (''ignore_comm_regex'', \<exists>re \<in> set (f_ignore_regex f). match_string re (fi_comm i)),
      (''ignore_cmdline_regex'', fi_cmdline i \<noteq> [] \<and>
         (\<exists>re \<in> set (f_ignore_cmd f). match_string re (join_with '' '' (fi_cmdline i)))),
      (''ignore_users'', fi_user i \<noteq> [] \<and> fi_user i \<in> set (f_ignore_users f))]"

section \<open>Lemmas\<close>

lemma compile_patterns_ok:
  "(\<exists>res. compile_patterns rc what i ps = Inr res) \<longleftrightarrow> (\<forall>p \<in> set ps. compiles rc p)"
proof (induction ps arbitrary: i)
  case (Cons q ps)
  show ?case
  proof (cases "rc q")
    case (Inr re)
    then show ?thesis
      using Cons.IH [of "i + 1"]
      by (cases "compile_patterns rc what (i + 1) ps") (simp_all add: compiles_def)
  qed (simp add: compiles_def)
qed simp

lemma compile_patterns_length:
  "compile_patterns rc what i ps = Inr res \<Longrightarrow> length res = length ps"
  by (induction ps arbitrary: i res) (auto split: sum.splits)

lemma compile_patterns_error:
  "compile_patterns rc what i ps = Inl (BadPattern w j p) \<Longrightarrow>
    w = what \<and> i \<le> j \<and> j < i + length ps \<and> p = ps ! (j - i) \<and> \<not> compiles rc p
    \<and> (\<forall>q \<in> set (take (j - i) ps). compiles rc q)"
proof (induction ps arbitrary: i)
  case (Cons q ps)
  show ?case
  proof (cases "rc q")
    case (Inl e)
    with Cons.prems show ?thesis by (auto simp: compiles_def)
  next
    case (Inr re)
    with Cons.prems have "compile_patterns rc what (i + 1) ps = Inl (BadPattern w j p)"
      by (auto split: sum.splits)
    note IH = Cons.IH [OF this]
    then obtain d where "j = i + 1 + d" using le_Suc_ex by blast
    with IH Inr show ?thesis by (auto simp: compiles_def)
  qed
qed simp

text \<open>The first of a list of rules that holds, one rule at a time.\<close>

lemma first_rule:
  "(case find snd ((r, b) # rs) of None \<Rightarrow> k | Some (w, _) \<Rightarrow> h w) =
    (if b then h r else case find snd rs of None \<Rightarrow> k | Some (w, _) \<Rightarrow> h w)"
  "(case find snd [] of None \<Rightarrow> k | Some (w, _) \<Rightarrow> h w) = k"
  by simp_all

text \<open>
  C26. The decision is the first of the documented rules that excludes the process, and the
  process is kept exactly when none does.
\<close>

theorem keep_first_exclusion:
  "keep f i =
    (case find snd (exclusions f i) of None \<Rightarrow> (True, []) | Some (reason, _) \<Rightarrow> (False, reason))"
proof -
  let ?inc = "f_include_only f \<noteq> [] \<and> (\<forall>re \<in> set (f_include_only f).
      \<not> match_string re (fi_comm i) \<and> \<not> match_string re (command_text i))"
  have inc: "0 < length (f_include_only f) \<and> \<not> (\<exists>re \<in> set (f_include_only f).
      match_string re (fi_comm i) \<or> match_string re (if 0 < length (fi_cmdline i)
        then join_with '' '' (fi_cmdline i) else fi_comm i)) \<longleftrightarrow> ?inc"
    by (auto simp: command_text_def)
  have cmd: "0 < length (f_ignore_cmd f) \<and> 0 < length (fi_cmdline i)
      \<and> (\<exists>re \<in> set (f_ignore_cmd f). match_string re (join_with '' '' (fi_cmdline i)))
    \<longleftrightarrow> fi_cmdline i \<noteq> [] \<and> (\<exists>re \<in> set (f_ignore_cmd f). match_string re (join_with '' '' (fi_cmdline i)))"
    by auto
  show ?thesis
    unfolding keep_def Let_def inc cmd exclusions_def has_prefix_iff first_rule by (rule refl)
qed

text \<open>
  A filter compiled from a configuration that does not need the command line decides the same
  whatever the command line and the kernel-thread flag are, so the scanner may apply it without
  reading them.
\<close>

lemma keep_without_cmdline:
  assumes "filter_new rc cfg = Inr f" and "\<not> f_needs_cmdline f"
  shows "keep f (i\<lparr>fi_cmdline := cmdline, fi_is_kernel := kt\<rparr>) = keep f i"
proof -
  have "\<not> needs_cmdline cfg" and "f_ignore_kernel f = c_ignore_kernel_threads cfg"
    and "length (f_ignore_cmd f) = length (elems (c_ignore_cmdline_regex cfg))"
    and "length (f_include_only f) = length (elems (c_include_only cfg))"
    using assms by (auto simp: filter_new_def compile_patterns_length split: sum.splits)
  then have "\<not> f_ignore_kernel f" "f_ignore_cmd f = []" "f_include_only f = []"
    by (auto simp: needs_cmdline_def)
  then show ?thesis by (simp add: keep_def)
qed

end
