(* ===== verification/Namer.thy ===== *)
theory Namer
  imports ProcFilter
begin

text \<open>
  \<^verbatim>\<open>internal/namer/namer.go\<close>: the derivation of a group name.
\<close>

section \<open>The namer\<close>

definition max_name_len :: nat where "max_name_len = 128"

record compiled_rule =
  cr_match_comm :: string
  cr_match_comm_prefix :: string
  cr_match_comm_regex :: "regexp option"
  cr_match_exe_regex :: "regexp option"
  cr_from :: string
  cr_extract :: "regexp option"
  cr_template :: string

record namer =
  n_rules :: "compiled_rule list"
  n_fallback :: string

record namer_input =
  ni_comm :: string
  ni_exe :: string
  ni_cmdline :: "string list"

definition rule_matches :: "compiled_rule \<Rightarrow> namer_input \<Rightarrow> bool" where
  "rule_matches r i =
     (if cr_match_comm r \<noteq> [] \<and> ni_comm i \<noteq> cr_match_comm r then False
      else if cr_match_comm_prefix r \<noteq> [] \<and> \<not> has_prefix (ni_comm i) (cr_match_comm_prefix r) then False
      else if (case cr_match_comm_regex r of None \<Rightarrow> False | Some re \<Rightarrow> \<not> match_string re (ni_comm i))
      then False
      else (case cr_match_exe_regex r of
          None \<Rightarrow> True
        | Some re \<Rightarrow> \<not> (ni_exe i = [] \<or> \<not> match_string re (ni_exe i))))"

text \<open>The error of \<^verbatim>\<open>New\<close>: the index of the rule and the field that does not compile.\<close>

datatype namer_error = BadRule nat string

definition compile_field :: "compiler \<Rightarrow> nat \<Rightarrow> string \<Rightarrow> string \<Rightarrow> namer_error + regexp option" where
  "compile_field rc i what p =
     (if p = [] then Inr None
      else case rc p of Inl _ \<Rightarrow> Inl (BadRule i what) | Inr re \<Rightarrow> Inr (Some re))"

definition compile_rule :: "compiler \<Rightarrow> nat \<Rightarrow> naming_rule \<Rightarrow> namer_error + compiled_rule" where
  "compile_rule rc i r =
     (case compile_field rc i ''match_comm_regex'' (r_match_comm_regex r) of
        Inl e \<Rightarrow> Inl e
      | Inr comm_re \<Rightarrow>
     (case compile_field rc i ''match_exe_regex'' (r_match_exe_regex r) of
        Inl e \<Rightarrow> Inl e
      | Inr exe_re \<Rightarrow>
     (case compile_field rc i ''regex'' (r_regex r) of
        Inl e \<Rightarrow> Inl e
      | Inr extract \<Rightarrow>
          Inr \<lparr>cr_match_comm = r_match_comm r, cr_match_comm_prefix = r_match_comm_prefix r,
             cr_match_comm_regex = comm_re, cr_match_exe_regex = exe_re,
             cr_from = non_empty ''cmdline'' (r_from r), cr_extract = extract,
             cr_template = r_name r\<rparr>)))"

fun compile_rules :: "compiler \<Rightarrow> nat \<Rightarrow> naming_rule list \<Rightarrow> namer_error + compiled_rule list" where
  "compile_rules rc i [] = Inr []"
| "compile_rules rc i (r # rs) =
     (case compile_rule rc i r of
        Inl e \<Rightarrow> Inl e
      | Inr cr \<Rightarrow>
         (case compile_rules rc (i + 1) rs of Inl e \<Rightarrow> Inl e | Inr crs \<Rightarrow> Inr (cr # crs)))"

definition namer_new :: "compiler \<Rightarrow> naming_config \<Rightarrow> namer_error + namer" where
  "namer_new rc cfg =
     (case compile_rules rc 0 (elems (c_rules cfg)) of
        Inl e \<Rightarrow> Inl e
      | Inr crs \<Rightarrow> Inr \<lparr>n_rules = crs, n_fallback = non_empty ''comm'' (c_fallback cfg)\<rparr>)"

definition source_text :: "string \<Rightarrow> namer_input \<Rightarrow> string" where
  "source_text src i =
     (if src = ''comm'' then ni_comm i
      else if src = ''exe'' then ni_exe i
      else if length (ni_cmdline i) = 0 then [] else join_with '' '' (ni_cmdline i))"

text \<open>\<^const>\<open>None\<close> when the rule does not produce a name.\<close>

definition apply_rule :: "compiled_rule \<Rightarrow> namer_input \<Rightarrow> string option" where
  "apply_rule r i =
     (case cr_extract r of
        None \<Rightarrow> Some (cr_template r)
      | Some re \<Rightarrow>
          (let text = source_text (cr_from r) i
           in if text = [] then None
              else case find_submatch_index re text of
                None \<Rightarrow> None
              | Some m \<Rightarrow>
                  (let out = expand_template (rx_names re) (cr_template r) text m
                   in if length out = 0 then None else Some out)))"

definition fallback_name :: "string \<Rightarrow> namer_input \<Rightarrow> string" where
  "fallback_name fallback i =
     (if fallback = ''exe_basename'' \<and> ni_exe i \<noteq> [] then path_base (ni_exe i)
      else if fallback = ''exe_basename'' \<and> 0 < length (ni_cmdline i) then path_base (ni_cmdline i ! 0)
      else if fallback = ''cmdline_basename'' \<and> 0 < length (ni_cmdline i) then path_base (ni_cmdline i ! 0)
      else if fallback = ''cmdline_basename'' \<and> ni_exe i \<noteq> [] then path_base (ni_exe i)
      else if ni_comm i \<noteq> [] then ni_comm i
      else if ni_exe i \<noteq> [] then path_base (ni_exe i)
      else if 0 < length (ni_cmdline i) then path_base (ni_cmdline i ! 0)
      else ''unknown'')"

definition label_char :: "char \<Rightarrow> bool" where
  "label_char c \<longleftrightarrow>
     (let n = (of_char c :: nat)
      in 97 \<le> n \<and> n \<le> 122 \<or> 65 \<le> n \<and> n \<le> 90 \<or> 48 \<le> n \<and> n \<le> 57)
     \<or> c = CHR ''_'' \<or> c = CHR ''.'' \<or> c = CHR ''/'' \<or> c = CHR ''-''"

definition sanitize :: "string \<Rightarrow> string" where
  "sanitize s =
     (if s = [] then ''unknown''
      else let s1 = (if max_name_len < length s then take max_name_len s else s);
               b = map (\<lambda>c. if label_char c then c else CHR ''_'') s1;
               out = trim_set b ''_''
           in if out = [] then ''unknown'' else out)"

fun first_name :: "compiled_rule list \<Rightarrow> namer_input \<Rightarrow> string option" where
  "first_name [] i = None"
| "first_name (r # rs) i =
     (if \<not> rule_matches r i then first_name rs i
      else case apply_rule r i of Some name \<Rightarrow> Some name | None \<Rightarrow> first_name rs i)"

definition namer_name :: "namer \<Rightarrow> namer_input \<Rightarrow> string" where
  "namer_name n i =
     (case first_name (n_rules n) i of
        Some name \<Rightarrow> sanitize name
      | None \<Rightarrow> sanitize (fallback_name (n_fallback n) i))"

section \<open>Label values\<close>

text \<open>What the documentation promises of a label value.\<close>

definition label_value :: "string \<Rightarrow> bool" where
  "label_value s \<longleftrightarrow>
     s \<noteq> [] \<and> length s \<le> max_name_len \<and> (\<forall>c \<in> set s. label_char c)
     \<and> hd s \<noteq> CHR ''_'' \<and> last s \<noteq> CHR ''_''"

lemma label_value_unknown: "label_value ''unknown''"
  by (simp add: label_value_def label_char_def max_name_len_def)

lemma label_char_underscore: "label_char (CHR ''_'')"
  by (simp add: label_char_def)

lemma trimmed_label_value:
  assumes "length b \<le> max_name_len" and "\<forall>c \<in> set b. label_char c" and "trim_set b ''_'' \<noteq> []"
  shows "label_value (trim_set b ''_'')"
  using assms length_trim_set [of b "''_''"] set_trim_set [of b "''_''"] trim_set_ends [of b "''_''"]
  unfolding label_value_def by auto

lemma sanitize_label_value: "label_value (sanitize s)"
proof -
  define b where "b = map (\<lambda>c. if label_char c then c else CHR ''_'')
      (if max_name_len < length s then take max_name_len s else s)"
  have s: "sanitize s = (if s = [] then ''unknown'' else if trim_set b ''_'' = [] then ''unknown''
      else trim_set b ''_'')"
    by (simp only: sanitize_def b_def Let_def)
  have "length b \<le> max_name_len" and "\<forall>c \<in> set b. label_char c"
    by (auto simp: b_def label_char_underscore)
  then show ?thesis
    unfolding s by (simp add: label_value_unknown trimmed_label_value)
qed

lemma sanitize_label: "label_value s \<Longrightarrow> sanitize s = s"
proof -
  assume l: "label_value s"
  then have "map (\<lambda>c. if label_char c then c else CHR ''_'') s = s"
    by (intro map_idI) (auto simp: label_value_def)
  with l show ?thesis
    by (simp add: sanitize_def label_value_def trim_set_fixed)
qed

text \<open>
  C23. Every derived name is a legal label value: not empty, at most 128 bytes, of the restricted
  character set, without an underscore at either end; whatever the rules, the fallback and the
  bytes of the process are.
\<close>

theorem namer_name_label: "label_value (namer_name n i)"
  by (simp add: namer_name_def sanitize_label_value split: option.split)

text \<open>
  Sanitising leaves legal label values alone, and in particular a sanitised name.
\<close>

lemma sanitize_idempotent: "sanitize (sanitize s) = sanitize s \<and> (label_value s \<longrightarrow> sanitize s = s)"
  by (simp add: sanitize_label sanitize_label_value)

section \<open>The cascade\<close>

lemma first_name_skip:
  "\<forall>r \<in> set rs. rule_matches r i \<longrightarrow> apply_rule r i = None \<Longrightarrow> first_name (rs @ rs') i = first_name rs' i"
  by (induction rs) auto

lemma first_name_None:
  "first_name rs i = None \<longleftrightarrow> (\<forall>r \<in> set rs. rule_matches r i \<longrightarrow> apply_rule r i = None)"
  by (induction rs) (auto split: option.splits)

text \<open>
  C24. The cascade: the name comes from the first rule that both matches and extracts; a rule that
  matches but does not extract falls through to the rules after it, and the fallback is used
  exactly when no rule does both.
\<close>

theorem namer_cascade:
  "(\<forall>r \<in> set pre. rule_matches r i \<longrightarrow> apply_rule r i = None) \<longrightarrow>
     (rule_matches r i \<and> apply_rule r i = Some name \<longrightarrow>
        namer_name \<lparr>n_rules = pre @ r # post, n_fallback = fb\<rparr> i = sanitize name)
     \<and> namer_name \<lparr>n_rules = pre, n_fallback = fb\<rparr> i = sanitize (fallback_name fb i)"
  using first_name_skip [of pre i "r # post"] first_name_None [of pre i]
  by (auto simp: namer_name_def split: option.split)

section \<open>The shipped rules\<close>

text \<open>A rule that names a comm matches no other comm.\<close>

lemma rule_matches_comm:
  "rule_matches r i \<Longrightarrow> cr_match_comm r = [] \<or> ni_comm i = cr_match_comm r"
  "rule_matches r i \<Longrightarrow> has_prefix (ni_comm i) (cr_match_comm_prefix r)"
  by (auto simp: rule_matches_def has_prefix_iff split: if_splits)

lemma compile_rule_fields:
  "compile_rule rc j r = Inr cr \<Longrightarrow>
    cr_match_comm cr = r_match_comm r \<and> cr_match_comm_prefix cr = r_match_comm_prefix r
    \<and> cr_template cr = r_name r
    \<and> (r_match_comm_regex r = [] \<longrightarrow> cr_match_comm_regex cr = None)
    \<and> (r_match_exe_regex r = [] \<longrightarrow> cr_match_exe_regex cr = None)
    \<and> (r_regex r = [] \<longrightarrow> cr_extract cr = None)"
  by (auto simp: compile_rule_def compile_field_def split: sum.splits if_splits)

lemma compile_rules_Cons:
  "compile_rules rc j (r # rs) = Inr crs \<longleftrightarrow>
    (\<exists>cr crs'. crs = cr # crs' \<and> compile_rule rc j r = Inr cr \<and> compile_rules rc (j + 1) rs = Inr crs')"
  by (auto split: sum.splits)

lemma compile_rules_append:
  "compile_rules rc j (rs @ rs') = Inr crs \<Longrightarrow>
    \<exists>xs ys j'. crs = xs @ ys \<and> compile_rules rc j rs = Inr xs \<and> compile_rules rc j' rs' = Inr ys"
proof (induction rs arbitrary: j crs)
  case (Cons r rs)
  then obtain cr crs' where c: "crs = cr # crs'" "compile_rule rc j r = Inr cr"
    and "compile_rules rc (j + 1) (rs @ rs') = Inr crs'"
    by (auto simp del: compile_rules.simps(2) simp: compile_rules_Cons)
  from Cons.IH [OF this(3)] obtain xs ys j' where "crs' = xs @ ys" "compile_rules rc (j + 1) rs = Inr xs"
    "compile_rules rc j' rs' = Inr ys" by blast
  with c have "crs = (cr # xs) @ ys \<and> compile_rules rc j (r # rs) = Inr (cr # xs) \<and> compile_rules rc j' rs' = Inr ys"
    by simp
  then show ?case by blast
qed auto

lemma compile_rules_mem:
  "compile_rules rc j rs = Inr crs \<Longrightarrow> cr \<in> set crs \<Longrightarrow>
    \<exists>r \<in> set rs. cr_match_comm cr = r_match_comm r \<and> cr_match_comm_prefix cr = r_match_comm_prefix r"
proof (induction rs arbitrary: j crs)
  case (Cons r rs)
  then show ?case
    using compile_rule_fields by (simp only: compile_rules_Cons) fastforce
qed simp

text \<open>
  C25. Under the shipped rules, however the patterns are compiled, a container shim is named by
  the constant of its rule: the container id that follows the prefix never reaches the name.
\<close>

theorem default_rules_shim:
  assumes "namer_new rc (c_naming (normalise default_config)) = Inr n"
    and comm: "ni_comm i = ''containerd-shim'' @ cid"
  shows "namer_name n i = ''containerd-shim''"
proof -
  let ?norm = "\<lambda>r. r\<lparr>r_from := non_empty ''cmdline'' (r_from r)\<rparr>"
  let ?pre = "map ?norm (take 6 default_naming_rules)"
  let ?shim = "?norm (default_naming_rules ! 6)"
  let ?post = "map ?norm (drop 7 default_naming_rules)"
  have split: "elems (c_rules (c_naming (normalise default_config))) = ?pre @ ?shim # ?post"
    by (simp add: normalise_def default_config_def or_default_def default_naming_rules_def elems_def)
  obtain crs where n: "n_rules n = crs" and crs: "compile_rules rc 0 (?pre @ ?shim # ?post) = Inr crs"
    using assms(1) by (auto simp: namer_new_def split split: sum.splits)
  obtain xs ys j where xs: "compile_rules rc 0 ?pre = Inr xs" and "crs = xs @ ys"
    and "compile_rules rc j (?shim # ?post) = Inr ys"
    using compile_rules_append [OF crs] by blast
  then obtain cr zs where cr: "crs = xs @ cr # zs" "compile_rule rc j ?shim = Inr cr"
    unfolding compile_rules_Cons by blast
  have "\<not> rule_matches x i" if x: "x \<in> set xs" for x
  proof -
    obtain r where "r \<in> set ?pre" "cr_match_comm x = r_match_comm r"
      "cr_match_comm_prefix x = r_match_comm_prefix r"
      using compile_rules_mem [OF xs x] by blast
    with rule_matches_comm [of x i] comm show ?thesis
      by (auto simp: default_naming_rules_def naming_rule.make_def has_prefix_iff)
  qed
  moreover have "rule_matches cr i \<and> apply_rule cr i = Some ''containerd-shim''"
    using compile_rule_fields [OF cr(2)] comm
    by (simp add: default_naming_rules_def naming_rule.make_def rule_matches_def apply_rule_def has_prefix_iff)
  ultimately have "first_name crs i = Some ''containerd-shim''"
    using first_name_skip [of xs i "cr # zs"] cr(1) by simp
  then show ?thesis
    by (simp add: namer_name_def n sanitize_label label_value_def label_char_def max_name_len_def)
qed

section \<open>A validated configuration\<close>

lemma compile_field_ok: "p = [] \<or> compiles rc p \<Longrightarrow> \<exists>re. compile_field rc j what p = Inr re"
  by (auto simp: compile_field_def compiles_def split: sum.splits)

lemma compile_rule_ok:
  assumes "validate_rule rc 0 r = []"
  shows "\<exists>cr. compile_rule rc j r = Inr cr"
proof -
  obtain a b c where "compile_field rc j ''match_comm_regex'' (r_match_comm_regex r) = Inr a"
    "compile_field rc j ''match_exe_regex'' (r_match_exe_regex r) = Inr b"
    "compile_field rc j ''regex'' (r_regex r) = Inr c"
    using assms compile_field_ok [of "r_match_comm_regex r" rc j "''match_comm_regex''"]
      compile_field_ok [of "r_match_exe_regex r" rc j "''match_exe_regex''"]
      compile_field_ok [of "r_regex r" rc j "''regex''"]
    unfolding validate_rule_def append_is_Nil_conv check_Nil by blast
  then show ?thesis by (simp add: compile_rule_def)
qed

lemma compile_rules_ok:
  "(\<forall>r \<in> set rs. validate_rule rc 0 r = []) \<Longrightarrow> \<exists>crs. compile_rules rc j rs = Inr crs"
proof (induction rs arbitrary: j)
  case (Cons r rs)
  then obtain crs where "compile_rules rc (j + 1) rs = Inr crs" by fastforce
  with compile_rule_ok [of rc r j] Cons.prems show ?case by auto
qed simp

lemma filter_new_ok:
  assumes "\<forall>p \<in> set (elems (c_ignore_comm_regex cfg)). compiles rc p"
    and "\<forall>p \<in> set (elems (c_ignore_cmdline_regex cfg)). compiles rc p"
    and "\<forall>p \<in> set (elems (c_include_only cfg)). compiles rc p"
  shows "\<exists>f. filter_new rc cfg = Inr f"
proof -
  obtain a b c where "compile_patterns rc ''ignore_comm_regex'' 0 (elems (c_ignore_comm_regex cfg)) = Inr a"
    "compile_patterns rc ''ignore_cmdline_regex'' 0 (elems (c_ignore_cmdline_regex cfg)) = Inr b"
    "compile_patterns rc ''include_only'' 0 (elems (c_include_only cfg)) = Inr c"
    using compile_patterns_ok [THEN iffD2, OF assms(1)] compile_patterns_ok [THEN iffD2, OF assms(2)]
      compile_patterns_ok [THEN iffD2, OF assms(3)] by blast
  then show ?thesis by (simp add: filter_new_def)
qed

lemma validated_constructs:
  assumes "validate rc stat_path c = []"
  shows "\<exists>f n. filter_new rc (c_filter c) = Inr f \<and> namer_new rc (c_naming c) = Inr n"
proof -
  have pats: "bad_patterns rc BadIgnoreCommRegex (elems (c_ignore_comm_regex (c_filter c))) = []"
    "bad_patterns rc BadIgnoreCmdlineRegex (elems (c_ignore_cmdline_regex (c_filter c))) = []"
    "bad_patterns rc BadIncludeOnly (elems (c_include_only (c_filter c))) = []"
    and rules: "concat (map (\<lambda>(i, r). validate_rule rc i r) (enumerate 0 (elems (c_rules (c_naming c))))) = []"
    using assms by (simp_all only: validate_def append_is_Nil_conv)
  have "\<exists>crs. compile_rules rc 0 (elems (c_rules (c_naming c))) = Inr crs"
    using rules unfolding validate_rules_Nil by (rule compile_rules_ok)
  then have "\<exists>n. namer_new rc (c_naming c) = Inr n" by (auto simp: namer_new_def)
  with filter_new_ok [OF pats [unfolded bad_patterns_Nil]] show ?thesis by blast
qed


end
