(* ===== verification/GoIO.thy ===== *)
theory GoIO
  imports GoStrings
begin

text \<open>
  Errors, files, directories and \<^verbatim>\<open>bufio.Scanner\<close>, as the readers of \<^verbatim>\<open>internal/procfs\<close> use
  them. What a read of the file system returns is an input of the model: a file is what opening
  and reading it gives at that moment, so a file of a process that exits in the middle of a scan
  is a file whose open or read fails.
\<close>

section \<open>Errors\<close>

datatype errno = ENOENT | ESRCH | EIO | EACCES | EPERM | OtherErrno nat

text \<open>
  \<open>Wrap\<close> is an error built by \<^verbatim>\<open>fmt.Errorf\<close> with \<^verbatim>\<open>%w\<close>, or a \<^verbatim>\<open>*PathError\<close>: \<^verbatim>\<open>errors.Is\<close> looks
  through it. The path in an error text is left out.
\<close>

datatype go_error =
    Errno errno
  | IoEOF
  | ErrTooLong
  | NumError num_err
  | ErrorString string
  | Wrap string go_error

text \<open>The system error an error wraps, which is all that \<^verbatim>\<open>errors.Is\<close> is asked about.\<close>

fun errno_of :: "go_error \<Rightarrow> errno option" where
  "errno_of (Errno e) = Some e"
| "errno_of (Wrap _ e) = errno_of e"
| "errno_of _ = None"

section \<open>Files and directories\<close>

text \<open>
  \<open>File data err\<close> is an open file whose content is \<open>data\<close>, followed by the end of file or by
  the read error \<open>err\<close>.
\<close>

datatype os_file = OpenErr go_error | File string "go_error option"

text \<open>\<^verbatim>\<open>os.ReadFile\<close>.\<close>

definition read_file :: "os_file \<Rightarrow> go_error + string" where
  "read_file f =
     (case f of OpenErr e \<Rightarrow> Inl e
      | File data None \<Rightarrow> Inr data
      | File data (Some e) \<Rightarrow> Inl e)"

text \<open>An open directory: the entries left to read, and the error after them, if there is one.\<close>

datatype os_dir = DirOpenErr go_error | Dir "string list" "go_error option"

text \<open>
  \<^verbatim>\<open>Readdirnames(n)\<close> for \<open>n > 0\<close>: at most \<open>n\<close> names, an error after the last of them (the
  end of file when the call finds no name), and the directory that is left.
\<close>

definition readdirnames ::
  "nat \<Rightarrow> string list \<Rightarrow> go_error option \<Rightarrow> string list \<times> go_error option \<times> string list" where
  "readdirnames n names err =
     (if n \<le> length names then (take n names, None, drop n names)
      else case err of
        Some e \<Rightarrow> (names, Some e, [])
      | None \<Rightarrow> if names = [] then ([], Some IoEOF, []) else (names, None, []))"

text \<open>\<^verbatim>\<open>Readdirnames(-1)\<close>: every name, or the error.\<close>

definition readdirnames_all :: "os_dir \<Rightarrow> go_error + string list" where
  "readdirnames_all d =
     (case d of DirOpenErr e \<Rightarrow> Inl e
      | Dir names None \<Rightarrow> Inr names
      | Dir names (Some e) \<Rightarrow> Inl e)"

section \<open>bufio.Scanner with ScanLines\<close>

text \<open>
  A token is a line with its end-of-line mark (and one trailing carriage return) dropped,
  together with the error the scanner holds when it returns the line: none for a line that ends
  with a newline, since the scanner reads on only when its buffer holds no complete line, and the
  read error for a last line without a newline. A line that does not fit into the buffer of
  \<open>mx\<close> bytes stops the scanner with \<^verbatim>\<open>bufio.ErrTooLong\<close>. The second component is what
  \<^verbatim>\<open>Err()\<close> returns after the last token.
\<close>

definition drop_cr :: "string \<Rightarrow> string" where
  "drop_cr s = (if s \<noteq> [] \<and> last s = CHR 0x0D then butlast s else s)"

fun scan_lines ::
  "nat \<Rightarrow> string \<Rightarrow> string \<Rightarrow> go_error option \<Rightarrow> (string \<times> go_error option) list \<times> go_error option" where
  "scan_lines mx cur [] err =
     (if mx \<le> length cur then ([], Some ErrTooLong)
      else if cur = [] then ([], err) else ([(drop_cr cur, err)], err))"
| "scan_lines mx cur (c # s) err =
     (if mx \<le> length cur then ([], Some ErrTooLong)
      else if c = CHR 0x0A then
        (case scan_lines mx [] s err of (ts, e) \<Rightarrow> ((drop_cr cur, None) # ts, e))
      else scan_lines mx (cur @ [c]) s err)"

definition max_scan_token_size :: nat where
  "max_scan_token_size = 65536"

text \<open>The lines of an error-free text with short lines.\<close>

definition line_tokens :: "string \<Rightarrow> (string \<times> go_error option) list" where
  "line_tokens s = fst (scan_lines max_scan_token_size [] s None)"

section \<open>Facts\<close>

lemma scan_lines_errors:
  "scan_lines mx cur s err = (ts, e) \<Longrightarrow> e = err \<or> e = Some ErrTooLong"
  by (induction mx cur s err arbitrary: ts rule: scan_lines.induct)
     (auto split: if_splits prod.splits)

lemma scan_lines_token_errors:
  "scan_lines mx cur s err = (ts, e) \<Longrightarrow> t \<in> set ts \<Longrightarrow> snd t = None \<or> snd t = err"
  by (induction mx cur s err arbitrary: ts rule: scan_lines.induct)
     (auto split: if_splits prod.splits)

lemma drop_cr_set: "set (drop_cr s) \<subseteq> set s"
  by (auto simp: drop_cr_def dest: in_set_butlastD split: if_splits)

text \<open>A line of a text is one token: the bytes up to the newline, without the newline.\<close>

lemma scan_lines_line:
  assumes "CHR 0x0A \<notin> set l" and "length cur + length l < mx"
  shows "scan_lines mx cur (l @ CHR 0x0A # s) err =
    (case scan_lines mx [] s err of (ts, e) \<Rightarrow> ((drop_cr (cur @ l), None) # ts, e))"
  using assms by (induction l arbitrary: cur) auto

lemma scan_lines_token_no_newline:
  assumes "CHR 0x0A \<notin> set cur" and "scan_lines mx cur s err = (ts, e)" and "(l, x) \<in> set ts"
  shows "CHR 0x0A \<notin> set l"
  using assms
proof (induction mx cur s err arbitrary: ts rule: scan_lines.induct)
  case (1 mx cur err)
  then show ?case using drop_cr_set [of cur] by (auto split: if_splits)
next
  case (2 mx cur c s err)
  then show ?case
    using drop_cr_set [of cur] by (auto split: if_splits prod.splits)
qed

lemma readdirnames_left: "readdirnames n names err = (xs, None, left) \<Longrightarrow> 0 < n \<Longrightarrow>
    xs \<noteq> [] \<and> names = xs @ left"
  by (auto simp: readdirnames_def split: if_splits option.splits)

end
