(* ===== verification/ProcStat.thy ===== *)
theory ProcStat
  imports GoIO
begin

text \<open>
  \<^verbatim>\<open>internal/procfs/stat.go\<close> and \<^verbatim>\<open>internal/procfs/statm.go\<close>: the two files read for every
  process in every scan. \<open>kernel_stat_line\<close> is the format proc(5) documents, against which the
  parser is proved.
\<close>

section \<open>The stat file\<close>

record stat =
  st_pid :: go_int
  st_comm :: string
  st_state :: char
  st_ppid :: go_int
  st_minor_faults :: u64
  st_major_faults :: u64
  st_utime_ticks :: u64
  st_stime_ticks :: u64
  st_threads :: go_int
  st_start_ticks :: u64
  st_vsize_bytes :: u64
  st_rss_pages :: u64

text \<open>\<open>field_at rest n\<close> is the closure \<^verbatim>\<open>field\<close>: field \<open>n\<close> of proc(5), empty when it is absent.\<close>

definition field_at :: "string list \<Rightarrow> nat \<Rightarrow> string" where
  "field_at rest n = (if 3 \<le> n \<and> n - 3 < length rest then rest ! (n - 3) else [])"

definition field_u64 :: "string list \<Rightarrow> nat \<Rightarrow> u64" where
  "field_u64 rest n = word_of_int (fst (parse_uint max_u64 (field_at rest n)))"

definition field_int :: "string list \<Rightarrow> nat \<Rightarrow> go_int" where
  "field_int rest n = fst (atoi (field_at rest n))"

definition parse_stat :: "string \<Rightarrow> go_error + stat" where
  "parse_stat s =
     (case (index_byte s (CHR ''(''), last_index_byte s (CHR '')'')) of
        (Some open, Some close) \<Rightarrow>
          if close < open then Inl (ErrorString ''malformed comm field'')
          else (case atoi (trim_space (take open s)) of
            (_, Some e) \<Rightarrow> Inl (Wrap ''malformed pid field'' (NumError e))
          | (pid, None) \<Rightarrow>
              let comm = take (close - (open + 1)) (drop (open + 1) s);
                  rest = str_fields (drop (close + 1) s)
              in if length rest < 20
                 then Inl (ErrorString ''expected at least 20 fields after comm'')
                 else Inr \<lparr>st_pid = pid, st_comm = comm,
                    st_state = (case field_at rest 3 of [] \<Rightarrow> CHR 0x00 | c # _ \<Rightarrow> c),
                    st_ppid = field_int rest 4,
                    st_minor_faults = field_u64 rest 10,
                    st_major_faults = field_u64 rest 12,
                    st_utime_ticks = field_u64 rest 14,
                    st_stime_ticks = field_u64 rest 15,
                    st_threads = field_int rest 20,
                    st_start_ticks = field_u64 rest 22,
                    st_vsize_bytes = field_u64 rest 23,
                    st_rss_pages = field_u64 rest 24\<rparr>)
      | _ \<Rightarrow> Inl (ErrorString ''malformed comm field''))"

definition read_stat :: "os_file \<Rightarrow> go_error + stat" where
  "read_stat f =
     (case read_file f of
        Inl e \<Rightarrow> Inl e
      | Inr data \<Rightarrow> (case parse_stat data of
          Inl e \<Rightarrow> Inl (Wrap ''procfs: parse'' e)
        | Inr st \<Rightarrow> Inr st))"

section \<open>The statm file\<close>

record statm =
  sm_size_pages :: u64
  sm_resident_pages :: u64
  sm_shared_pages :: u64
  sm_text_pages :: u64
  sm_data_pages :: u64

definition statm_u64 :: "string list \<Rightarrow> nat \<Rightarrow> u64" where
  "statm_u64 fs i = word_of_int (fst (parse_uint max_u64 (fs ! i)))"

definition read_statm :: "os_file \<Rightarrow> go_error + statm" where
  "read_statm f =
     (case read_file f of
        Inl e \<Rightarrow> Inl e
      | Inr data \<Rightarrow>
          let fs = str_fields data
          in if length fs < 6 then Inl (ErrorString ''procfs: expected 7 fields'')
             else Inr \<lparr>sm_size_pages = statm_u64 fs 0, sm_resident_pages = statm_u64 fs 1,
                  sm_shared_pages = statm_u64 fs 2, sm_text_pages = statm_u64 fs 3,
                  sm_data_pages = statm_u64 fs 5\<rparr>)"

section \<open>The documented formats\<close>

text \<open>
  Field \<open>n\<close> of the stat line of a process, for \<open>n\<close> from 3; \<open>other n\<close> is the text of a field
  the program does not use.
\<close>

definition kernel_stat_field :: "(nat \<Rightarrow> string) \<Rightarrow> stat \<Rightarrow> nat \<Rightarrow> string" where
  "kernel_stat_field other st n =
     (if n = 3 then [st_state st]
      else if n = 4 then format_uint (nat (st_ppid st))
      else if n = 10 then format_uint (unat (st_minor_faults st))
      else if n = 12 then format_uint (unat (st_major_faults st))
      else if n = 14 then format_uint (unat (st_utime_ticks st))
      else if n = 15 then format_uint (unat (st_stime_ticks st))
      else if n = 20 then format_uint (nat (st_threads st))
      else if n = 22 then format_uint (unat (st_start_ticks st))
      else if n = 23 then format_uint (unat (st_vsize_bytes st))
      else if n = 24 then format_uint (unat (st_rss_pages st))
      else other n)"

definition kernel_stat_line :: "(nat \<Rightarrow> string) \<Rightarrow> stat \<Rightarrow> string" where
  "kernel_stat_line other st =
     format_uint (nat (st_pid st)) @ '' ('' @ st_comm st @ '') ''
       @ join_with '' '' (map (kernel_stat_field other st) [3..<53]) @ [CHR 0x0A]"

definition kernel_statm_line :: "string \<Rightarrow> string \<Rightarrow> statm \<Rightarrow> string" where
  "kernel_statm_line lib dt sm =
     join_with '' '' [format_uint (unat (sm_size_pages sm)), format_uint (unat (sm_resident_pages sm)),
       format_uint (unat (sm_shared_pages sm)), format_uint (unat (sm_text_pages sm)), lib,
       format_uint (unat (sm_data_pages sm)), dt] @ [CHR 0x0A]"

text \<open>Printable ASCII without the space: what the numeric and letter fields consist of.\<close>

definition plain_char :: "char \<Rightarrow> bool" where
  "plain_char c \<longleftrightarrow> 33 \<le> (of_char c :: nat) \<and> (of_char c :: nat) < 127"

definition plain_word :: "string \<Rightarrow> bool" where
  "plain_word w \<longleftrightarrow> w \<noteq> [] \<and> (\<forall>c \<in> set w. plain_char c)"

section \<open>Fields of a line of plain words\<close>

lemma space_len_plain: "plain_char c \<Longrightarrow> space_len (c # s) = 0"
  by (auto simp: space_len_def plain_char_def ascii_space_def split: list.splits)

lemma space_len_space [simp]: "space_len (CHR '' '' # s) = 1"
  by (simp add: space_len_def ascii_space_def)

lemma space_len_newline [simp]: "space_len (CHR 0x0A # s) = 1"
  by (simp add: space_len_def ascii_space_def)

lemma fields_from_plain:
  "\<forall>c \<in> set v. plain_char c \<Longrightarrow> fields_from w 0 (v @ s) = fields_from (w @ v) 0 s"
  by (induction v arbitrary: w) (simp_all add: space_len_plain)

lemma fields_join_plain:
  assumes "\<forall>w \<in> set ws. plain_word w"
  shows "str_fields (join_with '' '' ws @ [CHR 0x0A]) = ws"
  using assms unfolding str_fields_def
proof (induction ws rule: induct_list012)
  case 1
  then show ?case by (simp add: emit_word_def)
next
  case (2 w)
  then show ?case
    by (simp add: fields_from_plain plain_word_def emit_word_def)
next
  case (3 w v ws)
  then show ?case
    by (simp add: fields_from_plain plain_word_def emit_word_def)
qed

lemma fields_space: "str_fields (CHR '' '' # s) = str_fields s"
  by (simp add: str_fields_def emit_word_def)

lemma plain_digit_char: "d < 10 \<Longrightarrow> plain_char (digit_char d)"
  by (simp add: plain_char_def digit_char_def of_char_of)

lemma plain_format_uint [simp]: "plain_word (format_uint n)"
  using format_uint_digits [of n] plain_digit_char by (auto simp: plain_word_def)

lemma plain_not_rparen: "d < 10 \<Longrightarrow> digit_char d \<noteq> CHR '')'' \<and> digit_char d \<noteq> CHR ''(''"
  by (auto dest: digit_val_digit_char simp: digit_val_def)

lemma format_uint_no_paren: "CHR '')'' \<notin> set (format_uint n) \<and> CHR ''('' \<notin> set (format_uint n)"
  using format_uint_digits [of n] plain_not_rparen by metis

lemma set_join_with: "set (join_with sep ws) \<subseteq> set sep \<union> \<Union> (set ` set ws)"
  by (induction sep ws rule: join_with.induct) auto

lemma space_codes_small_end:
  "n < 128 \<Longrightarrow> space_codes [a, n] \<noteq> 2" "n < 128 \<Longrightarrow> space_codes [a, b, n] \<noteq> 3"
  "space_codes [a] \<noteq> 2" "space_codes [a] \<noteq> 3" "space_codes [a, b] \<noteq> 3"
  by simp_all

lemma space_len_rev_plain:
  assumes "plain_char c"
  shows "space_len_rev (c # r) = 0"
proof -
  have c: "space_len [c] = 0" and n: "(of_char c :: nat) < 128"
    using assms by (simp_all add: space_len_plain) (simp add: plain_char_def)
  have "space_len (rev (take 2 (c # r))) \<noteq> 2"
    using space_codes_small_end(1) [OF n] space_codes_small_end(3)
    by (cases r) (simp_all add: space_len_def del: space_codes.simps)
  moreover have "space_len (rev (take 3 (c # r))) \<noteq> 3"
    using space_codes_small_end(2) [OF n] space_codes_small_end(4,5)
    by (cases r; cases "tl r") (simp_all add: space_len_def del: space_codes.simps)
  ultimately show ?thesis using c by (simp add: space_len_rev_def)
qed

lemma trim_space_plain:
  assumes "plain_word w"
  shows "trim_space (w @ '' '') = w"
proof -
  from assms have ne: "w \<noteq> []" and plain: "\<forall>c \<in> set w. plain_char c"
    by (auto simp: plain_word_def)
  then have hd: "plain_char (hd w)" and last: "plain_char (hd (rev w))"
    by (simp_all add: hd_rev)
  from hd ne have "space_len (w @ '' '') = 0" by (cases w) (simp_all add: space_len_plain)
  then have l: "trim_space_left (w @ '' '') = w @ '' ''" by (simp add: trim_space_left.simps [of "w @ '' ''"])
  have "space_len_rev (rev w) = 0"
    using last ne by (cases "rev w") (simp_all add: space_len_rev_plain)
  then have r: "trim_space_right_rev (rev w) = rev w"
    by (simp add: trim_space_right_rev.simps [of "rev w"])
  have "space_len_rev (CHR '' '' # rev w) = 1" by (simp add: space_len_rev_def)
  then have "trim_space_right_rev (CHR '' '' # rev w) = rev w"
    by (subst trim_space_right_rev.simps) (simp add: r)
  then show ?thesis by (simp add: trim_space_def l)
qed

section \<open>The parsers read the documented formats\<close>

lemma word_of_parse_u64 [simp]:
  "(word_of_int (fst (parse_uint max_u64 (format_uint (unat w)))) :: u64) = w"
proof -
  have "int (unat w) \<le> max_u64"
    using unsigned_less [of w, where 'a = int] by (simp add: max_u64_def)
  then show ?thesis by (simp add: parse_format_uint)
qed

lemma kernel_stat_fields:
  assumes "plain_char (st_state st)" and "\<forall>n. plain_word (other n)"
  shows "plain_word (kernel_stat_field other st n)"
  using assms by (simp add: kernel_stat_field_def plain_word_def [of "[_]"])

lemma field_at_kernel:
  "3 \<le> n \<Longrightarrow> n < 53 \<Longrightarrow> field_at (map f [3..<53]) n = f n"
  by (simp add: field_at_def nth_map_upt del: upt_Suc upt_rec_numeral, arith)

lemma kernel_stat_no_paren:
  assumes "st_state st \<noteq> CHR '')''" and "\<forall>n. CHR '')'' \<notin> set (other n)"
  shows "CHR '')'' \<notin> set ('' '' @ join_with '' '' (map (kernel_stat_field other st) [3..<53]) @ [CHR 0x0A])"
proof -
  have "CHR '')'' \<notin> set (kernel_stat_field other st n)" for n
    using assms by (simp add: kernel_stat_field_def format_uint_no_paren)
  then show ?thesis
    using set_join_with [of "'' ''" "map (kernel_stat_field other st) [3..<53]"] by auto
qed

lemma parse_stat_line:
  assumes pid: "pid < 2 ^ 63"
    and plain: "\<forall>w \<in> set ws. plain_word w" and len: "20 \<le> length ws"
    and paren: "CHR '')'' \<notin> set ('' '' @ join_with '' '' ws @ [CHR 0x0A])"
  shows "parse_stat (format_uint pid @ '' ('' @ comm @ '') '' @ join_with '' '' ws @ [CHR 0x0A]) =
    Inr \<lparr>st_pid = int pid, st_comm = comm,
      st_state = (case field_at ws 3 of [] \<Rightarrow> CHR 0x00 | c # _ \<Rightarrow> c),
      st_ppid = field_int ws 4, st_minor_faults = field_u64 ws 10,
      st_major_faults = field_u64 ws 12, st_utime_ticks = field_u64 ws 14,
      st_stime_ticks = field_u64 ws 15, st_threads = field_int ws 20,
      st_start_ticks = field_u64 ws 22, st_vsize_bytes = field_u64 ws 23,
      st_rss_pages = field_u64 ws 24\<rparr>"
proof -
  let ?p = "format_uint pid"
  define tail where "tail = '' '' @ join_with '' '' ws @ [CHR 0x0A]"
  let ?s = "?p @ '' ('' @ comm @ CHR '')'' # tail"
  have op: "index_byte ?s (CHR ''('') = Some (length ?p + 1)"
    using index_byte_append [of "CHR ''(''" "?p @ '' ''"] format_uint_no_paren [of pid] by simp
  have cl: "last_index_byte ?s (CHR '')'') = Some (length ?p + 2 + length comm)"
    using last_index_byte_append [of "CHR '')''" tail "?p @ '' ('' @ comm"] paren
    by (simp add: tail_def)
  have ws: "str_fields tail = ws"
    using fields_join_plain [OF plain] by (simp add: tail_def fields_space)
  have "atoi (trim_space (?p @ '' '')) = (int pid, None)"
    using pid by (simp add: trim_space_plain atoi_format_uint)
  moreover have "drop (3 + length comm) (CHR '' '' # CHR ''('' # comm @ CHR '')'' # tail) = tail"
    by (simp add: numeral_3_eq_3)
  ultimately have "parse_stat ?s =
    Inr \<lparr>st_pid = int pid, st_comm = comm,
      st_state = (case field_at ws 3 of [] \<Rightarrow> CHR 0x00 | c # _ \<Rightarrow> c),
      st_ppid = field_int ws 4, st_minor_faults = field_u64 ws 10,
      st_major_faults = field_u64 ws 12, st_utime_ticks = field_u64 ws 14,
      st_stime_ticks = field_u64 ws 15, st_threads = field_int ws 20,
      st_start_ticks = field_u64 ws 22, st_vsize_bytes = field_u64 ws 23,
      st_rss_pages = field_u64 ws 24\<rparr>"
    using op cl ws len by (simp add: parse_stat_def Let_def)
  then show ?thesis by (simp add: tail_def)
qed

text \<open>
  C18. The stat parser reads every line of the format of proc(5) back exactly, whatever bytes
  the process name contains (spaces, parentheses and newlines included) and whatever the fields
  it does not use hold.
\<close>

theorem parse_kernel_stat_line:
  assumes "0 \<le> st_pid st" "st_pid st < 2 ^ 63"
    and ppid: "0 \<le> st_ppid st" "st_ppid st < 2 ^ 63"
    and threads: "0 \<le> st_threads st" "st_threads st < 2 ^ 63"
    and state: "plain_char (st_state st)" "st_state st \<noteq> CHR '')''"
    and other: "\<forall>n. plain_word (other n)" "\<forall>n. CHR '')'' \<notin> set (other n)"
  shows "parse_stat (kernel_stat_line other st) = Inr st"
proof -
  let ?ws = "map (kernel_stat_field other st) [3..<53]"
  have "\<forall>w \<in> set ?ws. plain_word w" using kernel_stat_fields [OF state(1) other(1)] by auto
  from parse_stat_line [of "nat (st_pid st)" ?ws "st_comm st", OF _ this _
      kernel_stat_no_paren [OF state(2) other(2)]] assms(1,2)
  show ?thesis
    using ppid threads
    by (simp add: kernel_stat_line_def field_int_def field_u64_def field_at_kernel
          kernel_stat_field_def atoi_format_uint del: upt_Suc upt_rec_numeral)
qed

text \<open>
  The memory reader reads a statm line back exactly, whatever the two unused columns hold.
\<close>

lemma read_kernel_statm_line:
  assumes "plain_word lib" and "plain_word dt"
  shows "read_statm (File (kernel_statm_line lib dt sm) None) = Inr sm"
proof -
  have "str_fields (kernel_statm_line lib dt sm) =
    [format_uint (unat (sm_size_pages sm)), format_uint (unat (sm_resident_pages sm)),
     format_uint (unat (sm_shared_pages sm)), format_uint (unat (sm_text_pages sm)), lib,
     format_uint (unat (sm_data_pages sm)), dt]"
    unfolding kernel_statm_line_def using assms by (intro fields_join_plain) simp
  then show ?thesis by (simp add: read_statm_def read_file_def statm_u64_def)
qed

end
