(* ===== verification/ProcStatus.thy ===== *)
theory ProcStatus
  imports ProcStat
begin

text \<open>
  \<^verbatim>\<open>internal/procfs/status.go\<close>, \<^verbatim>\<open>io.go\<close> and \<^verbatim>\<open>smaps.go\<close>: the readers that go through a file
  line by line with a \<^verbatim>\<open>bufio.Scanner\<close>.
\<close>

section \<open>status\<close>

record status =
  ss_uid :: u32
  ss_gid :: u32
  ss_vol_ctx_sw :: u64
  ss_invol_ctx_sw :: u64
  ss_swap_bytes :: u64

definition empty_status :: status where
  "empty_status = \<lparr>ss_uid = 0, ss_gid = 0, ss_vol_ctx_sw = 0, ss_invol_ctx_sw = 0, ss_swap_bytes = 0\<rparr>"

text \<open>A number that parses without an error; everything else leaves the field alone.\<close>

definition parsed :: "int \<Rightarrow> string \<Rightarrow> int option" where
  "parsed mx s = (case parse_uint mx s of (v, None) \<Rightarrow> Some v | (_, Some _) \<Rightarrow> None)"

definition parsed_head :: "int \<Rightarrow> string list \<Rightarrow> int option" where
  "parsed_head mx fs = (case fs of [] \<Rightarrow> None | f # _ \<Rightarrow> parsed mx f)"

text \<open>The body of the loop, from the line to the state and the count of fields found.\<close>

definition status_line :: "string \<Rightarrow> status \<times> nat \<Rightarrow> status \<times> nat" where
  "status_line line acc =
     (case acc of (st, found) \<Rightarrow>
       (case index_byte line (CHR '':'') of
          None \<Rightarrow> (st, found)
        | Some colon \<Rightarrow>
          let key = take colon line; val = trim_space (drop (colon + 1) line)
          in if key = ''Uid'' then
               (case parsed_head max_u32 (str_fields val) of
                  Some v \<Rightarrow> (st\<lparr>ss_uid := word_of_int v\<rparr>, found + 1) | None \<Rightarrow> (st, found))
             else if key = ''Gid'' then
               (case parsed_head max_u32 (str_fields val) of
                  Some v \<Rightarrow> (st\<lparr>ss_gid := word_of_int v\<rparr>, found + 1) | None \<Rightarrow> (st, found))
             else if key = ''voluntary_ctxt_switches'' then
               (case parsed max_u64 val of
                  Some v \<Rightarrow> (st\<lparr>ss_vol_ctx_sw := word_of_int v\<rparr>, found + 1) | None \<Rightarrow> (st, found))
             else if key = ''nonvoluntary_ctxt_switches'' then
               (case parsed max_u64 val of
                  Some v \<Rightarrow> (st\<lparr>ss_invol_ctx_sw := word_of_int v\<rparr>, found + 1) | None \<Rightarrow> (st, found))
             else if key = ''VmSwap'' then
               (case parsed_head max_u64 (str_fields val) of
                  Some v \<Rightarrow> (st\<lparr>ss_swap_bytes := word_of_int v * 1024\<rparr>, found + 1)
                | None \<Rightarrow> (st, found))
             else (st, found)))"

definition scan_result :: "go_error option \<Rightarrow> 'a \<Rightarrow> go_error + 'a" where
  "scan_result e x = (case e of Some err \<Rightarrow> Inl err | None \<Rightarrow> Inr x)"

fun status_loop ::
  "(string \<times> go_error option) list \<Rightarrow> go_error option \<Rightarrow> status \<times> nat \<Rightarrow> go_error + status" where
  "status_loop [] e acc = scan_result e (fst acc)"
| "status_loop ((line, le) # ts) e acc =
     (let acc' = status_line line acc
      in if snd acc' = 5 then scan_result le (fst acc') else status_loop ts e acc')"

definition read_status :: "os_file \<Rightarrow> go_error + status" where
  "read_status f =
     (case f of OpenErr e \<Rightarrow> Inl e
      | File data err \<Rightarrow>
         (case scan_lines 65536 [] data err of (ts, e) \<Rightarrow> status_loop ts e (empty_status, 0)))"

section \<open>io\<close>

record io_counters =
  io_read_bytes :: u64
  io_write_bytes :: u64
  io_syscr :: u64
  io_syscw :: u64

definition empty_io :: io_counters where
  "empty_io = \<lparr>io_read_bytes = 0, io_write_bytes = 0, io_syscr = 0, io_syscw = 0\<rparr>"

definition io_line :: "string \<Rightarrow> io_counters \<Rightarrow> io_counters" where
  "io_line line io =
     (case index_byte line (CHR '':'') of
        None \<Rightarrow> io
      | Some colon \<Rightarrow>
        (case parsed max_u64 (trim_space (drop (colon + 1) line)) of
           None \<Rightarrow> io
         | Some v \<Rightarrow>
           let key = take colon line
           in if key = ''read_bytes'' then io\<lparr>io_read_bytes := word_of_int v\<rparr>
              else if key = ''write_bytes'' then io\<lparr>io_write_bytes := word_of_int v\<rparr>
              else if key = ''syscr'' then io\<lparr>io_syscr := word_of_int v\<rparr>
              else if key = ''syscw'' then io\<lparr>io_syscw := word_of_int v\<rparr>
              else io))"

definition read_io :: "os_file \<Rightarrow> go_error + io_counters" where
  "read_io f =
     (case f of OpenErr e \<Rightarrow> Inl e
      | File data err \<Rightarrow>
         (case scan_lines max_scan_token_size [] data err of
            (ts, e) \<Rightarrow> scan_result e (fold (\<lambda>t. io_line (fst t)) ts empty_io)))"

section \<open>smaps and smaps\_rollup\<close>

record smaps =
  sp_pss_bytes :: u64
  sp_swap_pss_bytes :: u64

definition empty_smaps :: smaps where
  "empty_smaps = \<lparr>sp_pss_bytes = 0, sp_swap_pss_bytes = 0\<rparr>"

definition parse_kb :: "string \<Rightarrow> u64" where
  "parse_kb s =
     (case parsed_head max_u64 (str_fields s) of None \<Rightarrow> 0 | Some v \<Rightarrow> word_of_int v * 1024)"

definition smaps_line :: "string \<Rightarrow> smaps \<Rightarrow> smaps" where
  "smaps_line line sp =
     (if has_prefix line ''Pss:'' then sp\<lparr>sp_pss_bytes := sp_pss_bytes sp + parse_kb (drop 4 line)\<rparr>
      else if has_prefix line ''SwapPss:''
      then sp\<lparr>sp_swap_pss_bytes := sp_swap_pss_bytes sp + parse_kb (drop 8 line)\<rparr>
      else sp)"

definition read_smaps :: "os_file \<Rightarrow> go_error + smaps" where
  "read_smaps f =
     (case f of OpenErr e \<Rightarrow> Inl e
      | File data err \<Rightarrow>
         (case scan_lines 262144 [] data err of
            (ts, e) \<Rightarrow> scan_result e (fold (\<lambda>t. smaps_line (fst t)) ts empty_smaps)))"

section \<open>Texts of short lines\<close>

text \<open>\<open>unlines\<close> is a file of complete lines; \<open>short_line\<close> says that a line fits a buffer.\<close>

definition unlines :: "string list \<Rightarrow> string" where
  "unlines ls = concat (map (\<lambda>l. l @ [CHR 0x0A]) ls)"

definition short_line :: "nat \<Rightarrow> string \<Rightarrow> bool" where
  "short_line mx l \<longleftrightarrow> length l < mx \<and> CHR 0x0A \<notin> set l \<and> CHR 0x0D \<notin> set l"

lemma drop_cr_short: "CHR 0x0D \<notin> set l \<Longrightarrow> drop_cr l = l"
  unfolding drop_cr_def by (metis last_in_set)

lemma scan_lines_unlines:
  "\<forall>l \<in> set ls. short_line mx l \<Longrightarrow> 0 < mx \<Longrightarrow>
    scan_lines mx [] (unlines ls) err = (map (\<lambda>l. (l, None)) ls, err)"
  by (induction ls) (simp_all add: unlines_def scan_lines_line short_line_def drop_cr_short)

lemma fold_fst_tokens: "fold (\<lambda>t. f (fst t)) (map (\<lambda>l. (l, x)) ls) = fold f ls"
  by (induction ls) auto

lemma read_smaps_unlines:
  "\<forall>l \<in> set ls. short_line 262144 l \<Longrightarrow>
    read_smaps (File (unlines ls) None) = Inr (fold smaps_line ls empty_smaps)"
  by (simp add: read_smaps_def scan_lines_unlines fold_fst_tokens scan_result_def)

lemma read_io_unlines:
  "\<forall>l \<in> set ls. short_line max_scan_token_size l \<Longrightarrow>
    read_io (File (unlines ls) None) = Inr (fold io_line ls empty_io)"
  by (simp add: read_io_def scan_lines_unlines fold_fst_tokens scan_result_def max_scan_token_size_def)

section \<open>The documented formats of io and status\<close>

text \<open>The lines of the two files in the order the kernel prints them.\<close>

definition key_line :: "string \<Rightarrow> char \<Rightarrow> nat \<Rightarrow> string" where
  "key_line key sep n = key @ CHR '':'' # sep # format_uint n"

definition kernel_io_lines :: "nat \<Rightarrow> nat \<Rightarrow> nat \<Rightarrow> io_counters \<Rightarrow> string list" where
  "kernel_io_lines rchar wchar cancelled io =
     [key_line ''rchar'' (CHR '' '') rchar, key_line ''wchar'' (CHR '' '') wchar,
      key_line ''syscr'' (CHR '' '') (unat (io_syscr io)),
      key_line ''syscw'' (CHR '' '') (unat (io_syscw io)),
      key_line ''read_bytes'' (CHR '' '') (unat (io_read_bytes io)),
      key_line ''write_bytes'' (CHR '' '') (unat (io_write_bytes io)),
      key_line ''cancelled_write_bytes'' (CHR '' '') cancelled]"

definition status_keys :: "string list" where
  "status_keys = [''Uid'', ''Gid'', ''voluntary_ctxt_switches'', ''nonvoluntary_ctxt_switches'', ''VmSwap'']"

text \<open>A line of the status file under a key the reader does not look for.\<close>

definition foreign_line :: "string \<Rightarrow> bool" where
  "foreign_line l \<longleftrightarrow>
     (case index_byte l (CHR '':'') of None \<Rightarrow> True | Some i \<Rightarrow> take i l \<notin> set status_keys)"

definition id_line :: "string \<Rightarrow> u32 \<Rightarrow> string \<Rightarrow> string" where
  "id_line key w others = key_line key (CHR 0x09) (unat w) @ CHR 0x09 # others"

definition kernel_status_lines ::
  "string list \<Rightarrow> string list \<Rightarrow> string list \<Rightarrow> string \<Rightarrow> string \<Rightarrow> nat \<Rightarrow> status \<Rightarrow> string list" where
  "kernel_status_lines pre mid post uids gids swap_kb st =
     pre @ [id_line ''Uid'' (ss_uid st) uids, id_line ''Gid'' (ss_gid st) gids] @ mid
       @ [''VmSwap:'' @ CHR 0x09 # format_uint swap_kb @ '' kB''] @ post
       @ [key_line ''voluntary_ctxt_switches'' (CHR 0x09) (unat (ss_vol_ctx_sw st)),
          key_line ''nonvoluntary_ctxt_switches'' (CHR 0x09) (unat (ss_invol_ctx_sw st))]"

lemma plain_trim_right:
  assumes "plain_char (last w)" and "w \<noteq> []"
  shows "trim_space_right_rev (rev w) = rev w"
proof -
  obtain v c where "w = v @ [c]" using assms(2) by (cases w rule: rev_cases) auto
  with assms(1) show ?thesis
    by (simp add: trim_space_right_rev.simps [of "c # rev v"] space_len_rev_plain)
qed

lemma trim_space_head:
  assumes "w \<noteq> []" and "plain_char (hd w)" and "plain_char (last w)"
    and "ascii_space (of_char sep)"
  shows "trim_space (sep # w) = w"
proof -
  have "space_len w = 0" using assms(1,2) by (cases w) (simp_all add: space_len_plain)
  then have "trim_space_left w = w" by (simp add: trim_space_left.simps [of w])
  moreover have "space_len (sep # w) = 1" using assms(4) by (simp add: space_len_def)
  ultimately have "trim_space_left (sep # w) = w"
    by (simp add: trim_space_left.simps [of "sep # w"])
  then show ?thesis
    using plain_trim_right [OF assms(3,1)] by (simp add: trim_space_def)
qed

lemma plain_word_ends: "plain_word w \<Longrightarrow> w \<noteq> [] \<and> plain_char (hd w) \<and> plain_char (last w)"
  by (auto simp: plain_word_def)

lemma trim_space_format [simp]:
  "ascii_space (of_char sep) \<Longrightarrow> trim_space (sep # format_uint n) = format_uint n"
  using plain_word_ends [OF plain_format_uint [of n]] by (simp add: trim_space_head)

lemma key_line_index: "CHR '':'' \<notin> set key \<Longrightarrow> index_byte (key @ CHR '':'' # r) (CHR '':'') = Some (length key)"
  by (rule index_byte_append)

lemma parsed_u64 [simp]: "parsed max_u64 (format_uint (unat (w :: u64))) = Some (uint w)"
proof -
  have "int (unat w) \<le> max_u64"
    using unsigned_less [of w, where 'a = int] by (simp add: max_u64_def)
  then show ?thesis by (simp add: parsed_def parse_format_uint)
qed

lemma parsed_u32 [simp]: "parsed max_u32 (format_uint (unat (w :: u32))) = Some (uint w)"
proof -
  have "int (unat w) \<le> max_u32"
    using unsigned_less [of w, where 'a = int] by (simp add: max_u32_def)
  then show ?thesis by (simp add: parsed_def parse_format_uint)
qed

lemma io_line_key:
  assumes "CHR '':'' \<notin> set key"
  shows "io_line (key_line key (CHR '' '') n) io =
    (case parsed max_u64 (format_uint n) of None \<Rightarrow> io
     | Some v \<Rightarrow> if key = ''read_bytes'' then io\<lparr>io_read_bytes := word_of_int v\<rparr>
         else if key = ''write_bytes'' then io\<lparr>io_write_bytes := word_of_int v\<rparr>
         else if key = ''syscr'' then io\<lparr>io_syscr := word_of_int v\<rparr>
         else if key = ''syscw'' then io\<lparr>io_syscw := word_of_int v\<rparr> else io)"
  using key_line_index [OF assms, of "CHR '' '' # format_uint n"]
  by (simp add: io_line_def key_line_def ascii_space_def split: option.split)

text \<open>
  The io reader reads back the four counters of every io file in the format the kernel
  prints, whatever the three counters it does not use are.
\<close>

lemma read_kernel_io:
  assumes "\<forall>l \<in> set (kernel_io_lines rchar wchar cancelled io). short_line max_scan_token_size l"
  shows "read_io (File (unlines (kernel_io_lines rchar wchar cancelled io)) None) = Inr io"
proof -
  have "fold io_line (kernel_io_lines rchar wchar cancelled io) empty_io = io"
    by (simp add: kernel_io_lines_def io_line_key empty_io_def split: option.splits)
  with assms show ?thesis by (simp add: read_io_unlines)
qed

lemma read_status_unlines:
  "\<forall>l \<in> set ls. short_line 65536 l \<Longrightarrow>
    read_status (File (unlines ls) None) = status_loop (map (\<lambda>l. (l, None)) ls) None (empty_status, 0)"
  by (simp add: read_status_def scan_lines_unlines)

lemma status_line_foreign: "foreign_line l \<Longrightarrow> status_line l acc = acc"
  by (auto simp: status_line_def foreign_line_def status_keys_def Let_def split: option.splits prod.splits)

lemma status_loop_foreign:
  "\<forall>l \<in> set ls. foreign_line l \<Longrightarrow> snd acc \<noteq> 5 \<Longrightarrow>
    status_loop (map (\<lambda>l. (l, None)) ls @ ts) e acc = status_loop ts e acc"
  by (induction ls) (simp_all add: status_line_foreign)

lemma str_fields_head:
  assumes "plain_word w" and "ascii_space (of_char sep)"
  shows "\<exists>ws. str_fields (w @ sep # r) = w # ws"
  using assms
  by (simp add: str_fields_def fields_from_plain plain_word_def emit_word_def space_len_def)

lemma id_value:
  assumes "plain_word others"
  shows "parsed_head max_u32 (str_fields (trim_space (CHR 0x09 # format_uint (unat (w :: u32)) @ CHR 0x09 # others)))
    = Some (uint w)"
proof -
  let ?v = "format_uint (unat w) @ CHR 0x09 # others"
  have "trim_space (CHR 0x09 # ?v) = ?v"
    using plain_word_ends [OF assms] plain_word_ends [OF plain_format_uint [of "unat w"]]
    by (intro trim_space_head) (simp_all add: ascii_space_def)
  moreover obtain ws where "str_fields ?v = format_uint (unat w) # ws"
    using str_fields_head [OF plain_format_uint, of "CHR 0x09"] by (auto simp: ascii_space_def)
  ultimately show ?thesis by (simp add: parsed_head_def)
qed

lemma swap_value:
  assumes "int n \<le> max_u64"
  shows "parsed_head max_u64 (str_fields (trim_space (CHR 0x09 # format_uint n @ '' kB''))) = Some (int n)"
proof -
  let ?v = "format_uint n @ '' kB''"
  have "trim_space (CHR 0x09 # ?v) = ?v"
    using plain_word_ends [OF plain_format_uint [of n]]
    by (intro trim_space_head) (simp_all add: ascii_space_def plain_char_def)
  moreover obtain ws where "str_fields ?v = format_uint n # ws"
    using str_fields_head [OF plain_format_uint, of "CHR '' ''" n "''kB''"]
    by (auto simp: ascii_space_def)
  ultimately show ?thesis
    using assms by (simp add: parsed_head_def parsed_def parse_format_uint)
qed

lemma status_line_steps:
  "plain_word o' \<Longrightarrow> status_line (id_line ''Uid'' u o') (st, k) = (st\<lparr>ss_uid := u\<rparr>, k + 1)"
  "plain_word o' \<Longrightarrow> status_line (id_line ''Gid'' u o') (st, k) = (st\<lparr>ss_gid := u\<rparr>, k + 1)"
  "int n \<le> max_u64 \<Longrightarrow> status_line (''VmSwap:'' @ CHR 0x09 # format_uint n @ '' kB'') (st, k) =
     (st\<lparr>ss_swap_bytes := of_nat n * 1024\<rparr>, k + 1)"
  "status_line (key_line ''voluntary_ctxt_switches'' (CHR 0x09) (unat v)) (st, k) =
     (st\<lparr>ss_vol_ctx_sw := v\<rparr>, k + 1)"
  "status_line (key_line ''nonvoluntary_ctxt_switches'' (CHR 0x09) (unat v)) (st, k) =
     (st\<lparr>ss_invol_ctx_sw := v\<rparr>, k + 1)"
  using id_value [of o' u] swap_value [of n]
  by (simp_all add: status_line_def id_line_def key_line_def ascii_space_def)

text \<open>
  C19. The status reader reads back the user, group, context switches and swap of every status
  file of the documented shape: the lines under other keys, before, between and after the wanted
  ones, are skipped, the real ids are taken, the kilobytes of VmSwap become bytes, and the
  reader stops at the fifth field, so nothing after it matters.
\<close>

theorem read_kernel_status:
  assumes short: "\<forall>l \<in> set (kernel_status_lines pre mid post uids gids swap_kb st @ rest). short_line 65536 l"
    and foreign: "\<forall>l \<in> set pre \<union> set mid \<union> set post. foreign_line l"
    and ids: "plain_word uids" "plain_word gids"
    and swap: "int swap_kb \<le> max_u64" "ss_swap_bytes st = of_nat swap_kb * 1024"
  shows "read_status (File (unlines (kernel_status_lines pre mid post uids gids swap_kb st @ rest)) None)
    = Inr st"
proof -
  have "status_loop (map (\<lambda>l. (l, None)) (kernel_status_lines pre mid post uids gids swap_kb st @ rest))
      None (empty_status, 0)
    = Inr (empty_status\<lparr>ss_uid := ss_uid st, ss_gid := ss_gid st, ss_swap_bytes := of_nat swap_kb * 1024,
        ss_vol_ctx_sw := ss_vol_ctx_sw st, ss_invol_ctx_sw := ss_invol_ctx_sw st\<rparr>)"
    using foreign ids swap(1)
    by (simp add: kernel_status_lines_def status_loop_foreign status_line_steps [simplified]
          scan_result_def)
  also have "\<dots> = Inr st" using swap(2) by (simp add: empty_status_def)
  finally show ?thesis by (simp only: read_status_unlines [OF short])
qed

text \<open>
  Over a text of complete lines the smaps reader returns the sum, modulo the width of the
  counter, of the proportional sizes of all the mappings, and the sum of their swapped sizes: the
  detailed file with one entry per mapping is accumulated, not overwritten.
\<close>

lemma read_smaps_sums:
  assumes "\<forall>l \<in> set ls. short_line 262144 l"
  shows "read_smaps (File (unlines ls) None) = Inr \<lparr>
    sp_pss_bytes = sum_list (map (\<lambda>l. parse_kb (drop 4 l)) (filter (\<lambda>l. has_prefix l ''Pss:'') ls)),
    sp_swap_pss_bytes =
      sum_list (map (\<lambda>l. parse_kb (drop 8 l)) (filter (\<lambda>l. has_prefix l ''SwapPss:'') ls))\<rparr>"
proof -
  have excl: "\<not> (has_prefix l ''Pss:'' \<and> has_prefix l ''SwapPss:'')" for l
    by (auto simp: has_prefix_iff)
  have "fold smaps_line ls sp = \<lparr>
      sp_pss_bytes = sp_pss_bytes sp
        + sum_list (map (\<lambda>l. parse_kb (drop 4 l)) (filter (\<lambda>l. has_prefix l ''Pss:'') ls)),
      sp_swap_pss_bytes = sp_swap_pss_bytes sp
        + sum_list (map (\<lambda>l. parse_kb (drop 8 l)) (filter (\<lambda>l. has_prefix l ''SwapPss:'') ls))\<rparr>"
    for sp
    using excl by (induction ls arbitrary: sp) (auto simp: smaps_line_def ac_simps)
  with assms show ?thesis by (simp add: read_smaps_unlines empty_smaps_def)
qed

end
