(* ===== verification/Procfs.thy ===== *)
theory Procfs
  imports ProcStatus
begin

text \<open>
  The rest of \<^verbatim>\<open>internal/procfs\<close>: the process listing and the classification of errors
  (\<^verbatim>\<open>procfs.go\<close>), the command line and the executable (\<^verbatim>\<open>cmdline.go\<close>), and the descriptor
  count and limit (\<^verbatim>\<open>fd.go\<close>).
\<close>

section \<open>Classification of errors\<close>

definition is_vanished :: "go_error \<Rightarrow> bool" where
  "is_vanished e \<longleftrightarrow> errno_of e = Some ENOENT \<or> errno_of e = Some ESRCH \<or> errno_of e = Some EIO"

definition is_denied :: "go_error \<Rightarrow> bool" where
  "is_denied e \<longleftrightarrow> errno_of e = Some EACCES \<or> errno_of e = Some EPERM"

section \<open>The process listing\<close>

fun pids_of_names :: "string list \<Rightarrow> go_int list" where
  "pids_of_names [] = []"
| "pids_of_names (n # ns) =
     (if n = [] \<or> (of_char (hd n) :: nat) < 48 \<or> (of_char (hd n) :: nat) > 57 then pids_of_names ns
      else case atoi n of
        (pid, None) \<Rightarrow> if pid \<le> 0 then pids_of_names ns else pid # pids_of_names ns
      | (_, Some _) \<Rightarrow> pids_of_names ns)"

definition list_pids :: "os_dir \<Rightarrow> go_error + go_int list" where
  "list_pids d =
     (case readdirnames_all d of Inl e \<Rightarrow> Inl e | Inr names \<Rightarrow> Inr (pids_of_names names))"

section \<open>The command line and the executable\<close>

definition nul :: char where "nul = CHR 0x00"

definition read_cmdline :: "os_file \<Rightarrow> go_error + string list" where
  "read_cmdline f =
     (case read_file f of
        Inl e \<Rightarrow> Inl e
      | Inr data \<Rightarrow>
          if data = [] then Inr []
          else let s = trim_right_set data [nul]
               in if s = [] then Inr [] else Inr (filter (\<lambda>p. p \<noteq> []) (split_byte nul s)))"

text \<open>The argument is what \<^verbatim>\<open>os.Readlink\<close> returns.\<close>

definition read_exe :: "go_error + string \<Rightarrow> go_error + string" where
  "read_exe link =
     (case link of
        Inl e \<Rightarrow> Inl e
      | Inr target \<Rightarrow>
          (case index_sub target '' (deleted)'' of
             Some i \<Rightarrow> Inr (if 0 < i then take i target else target)
           | None \<Rightarrow> Inr target))"

section \<open>Descriptors\<close>

text \<open>The loop of \<^verbatim>\<open>CountFDs\<close>, over the entries left to read.\<close>

function count_fds_from :: "string list \<Rightarrow> go_error option \<Rightarrow> nat \<Rightarrow> go_error + nat" where
  "count_fds_from names err n =
     (case readdirnames 1024 names err of
        (xs, Some e, rest) \<Rightarrow>
          if xs = [] \<and> n + length xs = 0 then Inl e else Inr (n + length xs)
      | (xs, None, rest) \<Rightarrow>
          if xs = [] then Inr (n + length xs)
          else count_fds_from rest err (n + length xs))"
  by pat_completeness auto
termination
  by (relation "measure (\<lambda>(names, _, _). length names)") (auto dest!: readdirnames_left [OF sym])

declare count_fds_from.simps [simp del]

definition count_fds :: "os_dir \<Rightarrow> go_error + nat" where
  "count_fds d = (case d of DirOpenErr e \<Rightarrow> Inl e | Dir names err \<Rightarrow> count_fds_from names err 0)"

fun limits_loop :: "(string \<times> go_error option) list \<Rightarrow> go_error option \<Rightarrow> go_error + go_int" where
  "limits_loop [] e = scan_result e (- 1)"
| "limits_loop ((line, _) # ts) e =
     (if \<not> has_prefix line ''Max open files'' then limits_loop ts e
      else case str_fields (drop (length ''Max open files'') line) of
        [] \<Rightarrow> Inr (- 1)
      | r # _ \<Rightarrow>
          if r = ''unlimited'' then Inr (- 1)
          else (case atoi r of (v, None) \<Rightarrow> Inr v | (_, Some _) \<Rightarrow> Inr (- 1)))"

definition max_fds :: "os_file \<Rightarrow> go_error + go_int" where
  "max_fds f =
     (case f of OpenErr e \<Rightarrow> Inl e
      | File data err \<Rightarrow>
         (case scan_lines max_scan_token_size [] data err of (ts, e) \<Rightarrow> limits_loop ts e))"

section \<open>The files of one process\<close>

text \<open>
  What the reads below \<^verbatim>\<open>/proc/<pid>\<close> return during one scan. Each file is read at most once
  in a scan, so a record of results is all a scan can observe; the results are independent of
  each other, since the process may exit or change between any two reads.
\<close>

record proc_files =
  pf_stat :: os_file
  pf_cmdline :: os_file
  pf_status :: os_file
  pf_exe :: "go_error + string"
  pf_statm :: os_file
  pf_io :: os_file
  pf_fd :: os_dir
  pf_limits :: os_file
  pf_smaps :: os_file
  pf_smaps_rollup :: os_file

section \<open>Lemmas\<close>

lemma vanished_not_denied: "is_vanished e \<Longrightarrow> \<not> is_denied e"
  by (auto simp: is_vanished_def is_denied_def)

lemma split_byte_append_sep: "split_byte c (xs @ c # ys) = split_byte c xs @ split_byte c ys"
proof (induction xs)
  case (Cons x xs)
  then show ?case by (auto split: list.splits)
qed simp

lemma split_byte_no_sep: "c \<notin> set w \<Longrightarrow> split_byte c w = [w]"
  by (induction w) auto

lemma split_byte_trailing:
  "filter (\<lambda>p. p \<noteq> []) (split_byte c (s @ replicate k c)) = filter (\<lambda>p. p \<noteq> []) (split_byte c s)"
proof (induction k)
  case (Suc k)
  have "s @ replicate (Suc k) c = (s @ replicate k c) @ c # []"
    by (simp add: replicate_append_same [symmetric])
  with Suc split_byte_append_sep [of c "s @ replicate k c" "[]"] show ?case by simp
qed simp

lemma trim_right_set_split:
  "\<exists>k. s = trim_right_set s [c] @ replicate k c"
proof -
  have tw: "takeWhile (\<lambda>x. x = c) r = replicate (length (takeWhile (\<lambda>x. x = c) r)) c" for r :: string
    by (induction r) auto
  let ?k = "length (takeWhile (\<lambda>x. x = c) (rev s))"
  have "s = rev (dropWhile (\<lambda>x. x = c) (rev s)) @ rev (takeWhile (\<lambda>x. x = c) (rev s))"
    by (metis rev_append rev_rev_ident takeWhile_dropWhile_id)
  then have "s = trim_right_set s [c] @ replicate ?k c"
    by (subst (asm) tw) (simp add: trim_right_set_def)
  then show ?thesis ..
qed

lemma trim_right_set_Nil: "trim_right_set [] cs = []"
  by (simp add: trim_right_set_def)

lemma split_byte_terminated:
  "\<forall>a \<in> set as. c \<notin> set a \<Longrightarrow> split_byte c (concat (map (\<lambda>a. a @ [c]) as)) = as @ [[]]"
proof (induction as)
  case (Cons a as)
  then have "split_byte c (a @ c # concat (map (\<lambda>a. a @ [c]) as)) = split_byte c a @ as @ [[]]"
    by (simp add: split_byte_append_sep)
  with Cons.prems show ?case by (simp add: split_byte_no_sep)
qed simp

text \<open>
  C21. The command line of a process, as the kernel prints it (every argument followed by a NUL
  byte), is read back as its list of arguments, with only the empty ones left out.
\<close>

theorem read_cmdline_argv:
  assumes "\<forall>a \<in> set argv. nul \<notin> set a"
  shows "read_cmdline (File (concat (map (\<lambda>a. a @ [nul]) argv)) None) =
    Inr (filter (\<lambda>a. a \<noteq> []) argv)"
proof -
  define data where "data = concat (map (\<lambda>a. a @ [nul]) argv)"
  obtain k where k: "data = trim_right_set data [nul] @ replicate k nul"
    using trim_right_set_split by blast
  have "filter (\<lambda>p. p \<noteq> []) (split_byte nul (trim_right_set data [nul]))
      = filter (\<lambda>p. p \<noteq> []) (split_byte nul data)"
    by (subst (2) k) (rule split_byte_trailing [symmetric])
  also have "\<dots> = filter (\<lambda>a. a \<noteq> []) argv"
    unfolding data_def split_byte_terminated [OF assms] by simp
  finally have eq: "filter (\<lambda>p. p \<noteq> []) (split_byte nul (trim_right_set data [nul]))
      = filter (\<lambda>a. a \<noteq> []) argv" .
  have "read_cmdline (File data None) =
      Inr (filter (\<lambda>p. p \<noteq> []) (split_byte nul (trim_right_set data [nul])))"
    by (cases "trim_right_set data [nul] = []"; cases "data = []")
       (simp_all add: read_cmdline_def read_file_def trim_right_set_Nil)
  with eq show ?thesis by (simp add: data_def)
qed

lemma digit_char_code: "d < 10 \<Longrightarrow> 48 \<le> (of_char (digit_char d) :: nat) \<and> (of_char (digit_char d) :: nat) \<le> 57"
  by (simp add: digit_char_def of_char_of)

lemma format_uint_head:
  "48 \<le> (of_char (hd (format_uint n)) :: nat) \<and> (of_char (hd (format_uint n)) :: nat) \<le> 57"
proof -
  have "hd (format_uint n) \<in> set (format_uint n)" by simp
  with format_uint_digits [of n] obtain d where "d < 10" "hd (format_uint n) = digit_char d" by metis
  then show ?thesis by (simp add: digit_char_code)
qed

lemma pids_of_names_pid:
  assumes "0 < p" and "p < 2 ^ 63"
  shows "pids_of_names (format_uint p # ns) = int p # pids_of_names ns"
  using assms format_uint_head [of p] by (simp add: atoi_format_uint not_less)


lemma count_fds_from_total:
  "count_fds_from names err n =
    (if names = [] \<and> n = 0 then Inl (case err of None \<Rightarrow> IoEOF | Some e \<Rightarrow> e)
     else Inr (n + length names))"
proof (induction names err n rule: count_fds_from.induct)
  case (1 names err n)
  show ?case
  proof (cases "1024 \<le> length names")
    case True
    then have r: "readdirnames 1024 names err = (take 1024 names, None, drop 1024 names)"
      and ne: "take 1024 names \<noteq> []"
      by (auto simp: readdirnames_def)
    have "count_fds_from names err n
        = count_fds_from (drop 1024 names) err (n + length (take 1024 names))"
      using ne by (simp add: count_fds_from.simps [of names] r)
    also have "\<dots> = Inr (n + length names)"
      using "1" [OF r [symmetric] refl refl ne] True by simp
    finally show ?thesis using True by auto
  next
    case False
    then show ?thesis
    proof (cases err)
      case None
      have "count_fds_from names None n = count_fds_from [] None (n + length names)"
        if "names \<noteq> []"
        using that False by (simp add: count_fds_from.simps [of names] readdirnames_def)
      then show ?thesis
        using None
        by (cases "names = []") (simp_all add: count_fds_from.simps [of "[]"] readdirnames_def)
    next
      case (Some e)
      with False show ?thesis by (simp add: count_fds_from.simps [of names] readdirnames_def)
    qed
  qed
qed

text \<open>
  C40. The descriptor count is the number of entries of the directory, however many chunks it is
  read in and also when the walk ends with an error after some entry; but a directory without an
  entry is an error (the end-of-file error, when the walk itself succeeds): a process that has
  closed all its descriptors is not counted as having none, although \<^verbatim>\<open>io.EOF\<close> only ends the
  walk.
\<close>

theorem count_fds_total:
  "count_fds (Dir names err) =
    (if names = [] then Inl (case err of None \<Rightarrow> IoEOF | Some e \<Rightarrow> e) else Inr (length names))"
  by (simp add: count_fds_def count_fds_from_total)

end
