(* ===== verification/Float64.thy ===== *)
theory Float64
  imports Complex_Main Prelude
begin

text \<open>
  Go's \<^verbatim>\<open>float64\<close>. A finite float is the rational it denotes, and every arithmetic
  operation of the source is the exact operation followed by \<open>rnd64\<close>, the rounding of
  IEEE 754 to nearest, ties to even, with a 53-bit significand. The exponent is not bounded:
  the program's floats are quotients and sums of 64-bit integers, far from the overflow and
  the subnormal ranges of binary64, so no operation of the source yields an infinity or a NaN.
\<close>

section \<open>Rounding\<close>

type_synonym float64 = rat

function nlog2 :: "int \<Rightarrow> nat" where
  "nlog2 n = (if n < 2 then 0 else nlog2 (n div 2) + 1)"
  by pat_completeness auto
termination
  by (relation "measure nat") auto

declare nlog2.simps [simp del]

text \<open>The exponent of a positive rational: the greatest \<open>e\<close> with \<open>2\<^sup>e \<le> x\<close>.\<close>

definition ilog2 :: "rat \<Rightarrow> int" where
  "ilog2 x = (if 1 \<le> x then int (nlog2 \<lfloor>x\<rfloor>) else - int (nlog2 (\<lceil>1 / x\<rceil> - 1)) - 1)"

definition round_even :: "rat \<Rightarrow> int" where
  "round_even q =
     (let f = \<lfloor>q\<rfloor>; d = q - of_int f
      in if d < 1 / 2 then f else if 1 / 2 < d then f + 1 else if even f then f else f + 1)"

definition rnd64 :: "rat \<Rightarrow> float64" where
  "rnd64 x =
     (if x = 0 then 0
      else let e = ilog2 \<bar>x\<bar> - 52
           in sgn x * (of_int (round_even (\<bar>x\<bar> / 2 powi e)) * 2 powi e))"

text \<open>The rationals that are values of a \<^verbatim>\<open>float64\<close>.\<close>

definition is_float64 :: "rat \<Rightarrow> bool" where
  "is_float64 x \<longleftrightarrow> rnd64 x = x"

section \<open>The operations the program uses\<close>

definition float64_of_int :: "int \<Rightarrow> float64" where
  "float64_of_int i = rnd64 (of_int i)"

definition float64_of_u64 :: "u64 \<Rightarrow> float64" where
  "float64_of_u64 w = float64_of_int (uint w)"

definition fadd :: "float64 \<Rightarrow> float64 \<Rightarrow> float64" where
  "fadd a b = rnd64 (a + b)"

definition fsub :: "float64 \<Rightarrow> float64 \<Rightarrow> float64" where
  "fsub a b = rnd64 (a - b)"

definition fdiv :: "float64 \<Rightarrow> float64 \<Rightarrow> float64" where
  "fdiv a b = rnd64 (a / b)"

section \<open>Binary logarithms\<close>

lemma floor_rat_divide_numeral [simp]:
  "\<lfloor>numeral a / numeral b :: rat\<rfloor> = numeral a div numeral b"
  using floor_divide_of_int_eq [of "numeral a" "numeral b", where 'a = rat] by simp

lemma floor_rat_divide_one [simp]: "\<lfloor>1 / numeral b :: rat\<rfloor> = 1 div numeral b"
  using floor_divide_of_int_eq [of 1 "numeral b", where 'a = rat] by simp

lemma nlog2_bounds: "0 < n \<Longrightarrow> 2 ^ nlog2 n \<le> n \<and> n < 2 ^ (nlog2 n + 1)"
proof (induction n rule: nlog2.induct)
  case (1 n)
  show ?case
  proof (cases "n < 2")
    case True
    with 1 show ?thesis by (simp add: nlog2.simps [of n])
  next
    case False
    then have "0 < n div 2" by simp
    with 1 False have "2 ^ nlog2 (n div 2) \<le> n div 2" and "n div 2 < 2 ^ (nlog2 (n div 2) + 1)"
      by simp_all
    with False show ?thesis by (simp add: nlog2.simps [of n], linarith)
  qed
qed

lemma nlog2_bounds_rat:
  assumes "0 < n"
  shows "(2::rat) ^ nlog2 n \<le> of_int n" and "of_int n + 1 \<le> (2::rat) ^ (nlog2 n + 1)"
proof -
  from nlog2_bounds [OF assms] have "2 ^ nlog2 n \<le> n" and "n + 1 \<le> 2 ^ (nlog2 n + 1)" by auto
  then have "of_int (2 ^ nlog2 n) \<le> (of_int n :: rat)"
    and "(of_int (n + 1) :: rat) \<le> of_int (2 ^ (nlog2 n + 1))"
    by (simp_all only: of_int_le_iff)
  then show "(2::rat) ^ nlog2 n \<le> of_int n" and "of_int n + 1 \<le> (2::rat) ^ (nlog2 n + 1)"
    by simp_all
qed

lemma ilog2_ge_1:
  assumes "1 \<le> x"
  shows "2 powi ilog2 x \<le> x" and "x < 2 powi (ilog2 x + 1)"
proof -
  define n where "n = \<lfloor>x\<rfloor>"
  from assms have n: "0 < n" "of_int n \<le> x" "x < of_int n + 1"
    using floor_correct [of x] by (simp_all add: n_def)
  have e: "ilog2 x = int (nlog2 n)" using assms by (simp add: ilog2_def n_def)
  from nlog2_bounds_rat(1) [OF n(1)] n(2) have "2 ^ nlog2 n \<le> x" by (rule order_trans)
  then show "2 powi ilog2 x \<le> x" by (simp add: e)
  from n(3) nlog2_bounds_rat(2) [OF n(1)] have "x < 2 ^ (nlog2 n + 1)" by (rule less_le_trans)
  then show "x < 2 powi (ilog2 x + 1)" by (simp add: e power_int_add)
qed

lemma ilog2_lt_1:
  assumes "0 < x" and "x < 1"
  shows "2 powi ilog2 x \<le> x" and "x < 2 powi (ilog2 x + 1)"
proof -
  define m where "m = \<lceil>1 / x\<rceil> - 1"
  from assms have "1 < 1 / x" by (simp add: field_simps)
  then have "1 < \<lceil>1 / x\<rceil>" by (simp add: less_ceiling_iff)
  then have m: "0 < m" "1 / x \<le> of_int m + 1" "of_int m < 1 / x"
    using ceiling_correct [of "1 / x"] by (simp_all add: m_def)
  have e: "ilog2 x = - int (nlog2 m) - 1" using assms by (simp add: ilog2_def m_def)
  from m(2) nlog2_bounds_rat(2) [OF m(1)] have "1 / x \<le> 2 ^ (nlog2 m + 1)" by (rule order_trans)
  with assms have "1 / 2 ^ (nlog2 m + 1) \<le> x" by (simp add: field_simps)
  moreover have "(2::rat) powi ilog2 x = 1 / 2 ^ (nlog2 m + 1)"
    unfolding e by (simp add: power_int_diff power_int_minus field_simps)
  ultimately show "2 powi ilog2 x \<le> x" by simp
  from nlog2_bounds_rat(1) [OF m(1)] m(3) have "2 ^ nlog2 m < 1 / x" by (rule le_less_trans)
  with assms have "x < 1 / 2 ^ nlog2 m" by (simp add: field_simps)
  moreover have "(2::rat) powi (ilog2 x + 1) = 1 / 2 ^ nlog2 m"
    unfolding e by (simp add: power_int_minus field_simps)
  ultimately show "x < 2 powi (ilog2 x + 1)" by simp
qed

lemma ilog2_bounds:
  assumes "0 < x"
  shows "2 powi ilog2 x \<le> x" and "x < 2 powi (ilog2 x + 1)"
  using assms ilog2_ge_1 ilog2_lt_1 by (cases "1 \<le> x", simp_all)+

lemma powi_two_less_iff: "(2::rat) powi a < 2 powi b \<longleftrightarrow> a < b"
  using power_int_strict_increasing [of a b "2::rat"] power_int_increasing [of b a "2::rat"]
  by (cases "a < b") (simp_all add: not_less)

lemma ilog2_unique:
  assumes "2 powi e \<le> x" and "x < 2 powi (e + 1)"
  shows "ilog2 x = e"
proof -
  have "0 < (2::rat) powi e" by simp
  with assms(1) have "0 < x" by linarith
  from ilog2_bounds [OF this] assms
  have "(2::rat) powi ilog2 x < 2 powi (e + 1)" and "(2::rat) powi e < 2 powi (ilog2 x + 1)"
    by linarith+
  then show ?thesis by (simp add: powi_two_less_iff)
qed

lemma ilog2_mono: "0 < x \<Longrightarrow> x \<le> y \<Longrightarrow> ilog2 x \<le> ilog2 y"
proof -
  assume "0 < x" and "x \<le> y"
  with ilog2_bounds [of x] ilog2_bounds [of y] have "(2::rat) powi ilog2 x < 2 powi (ilog2 y + 1)"
    by linarith
  then show ?thesis by (simp add: powi_two_less_iff)
qed

section \<open>Rounding is monotone and exact on representable numbers\<close>

lemma round_even_bounds: "\<lfloor>q\<rfloor> \<le> round_even q \<and> round_even q \<le> \<lfloor>q\<rfloor> + 1"
  by (simp add: round_even_def Let_def)

lemma round_even_ge: "of_int n \<le> q \<Longrightarrow> n \<le> round_even q"
  using round_even_bounds [of q] le_floor_iff [of n q] by linarith

lemma round_even_int [simp]: "round_even (of_int n) = n"
  by (simp add: round_even_def Let_def)

lemma round_even_le:
  assumes "q \<le> of_int n"
  shows "round_even q \<le> n"
proof (cases "q = of_int n")
  case False
  with assms have "\<lfloor>q\<rfloor> < n" by (simp add: floor_less_iff)
  with round_even_bounds [of q] show ?thesis by linarith
qed simp

lemma round_even_mono:
  assumes "p \<le> q"
  shows "round_even p \<le> round_even q"
proof (cases "\<lfloor>p\<rfloor> = \<lfloor>q\<rfloor>")
  case True
  with assms show ?thesis by (auto simp: round_even_def Let_def)
next
  case False
  from assms have "\<lfloor>p\<rfloor> \<le> \<lfloor>q\<rfloor>" by (rule floor_mono)
  with False have "\<lfloor>p\<rfloor> + 1 \<le> \<lfloor>q\<rfloor>" by simp
  moreover have "round_even p \<le> \<lfloor>p\<rfloor> + 1" using round_even_bounds [of p] by simp
  moreover have "\<lfloor>q\<rfloor> \<le> round_even q" using round_even_bounds [of q] by simp
  ultimately show ?thesis by linarith
qed

text \<open>The significand of a positive number lies between \<open>2\<^sup>5\<^sup>2\<close> and \<open>2\<^sup>5\<^sup>3\<close>.\<close>

lemma scaled_bounds:
  assumes "0 < x"
  shows "2 ^ 52 \<le> x / 2 powi (ilog2 x - 52)" and "x / 2 powi (ilog2 x - 52) < 2 ^ 53"
proof -
  let ?u = "(2::rat) powi (ilog2 x - 52)"
  have u: "0 < ?u" by simp
  have lo: "(2::rat) powi ilog2 x = 2 ^ 52 * ?u"
    by (simp add: power_int_diff)
  have hi: "(2::rat) powi (ilog2 x + 1) = 2 ^ 53 * ?u"
    by (simp add: power_int_diff power_int_add)
  from ilog2_bounds [OF assms] show "2 ^ 52 \<le> x / ?u" and "x / ?u < 2 ^ 53"
    unfolding lo hi using u by (simp_all add: le_divide_eq divide_less_eq)
qed

lemma rnd64_pos:
  assumes "0 < x"
  shows "rnd64 x = of_int (round_even (x / 2 powi (ilog2 x - 52))) * 2 powi (ilog2 x - 52)"
  using assms by (simp add: rnd64_def Let_def)

lemma rnd64_zero [simp]: "rnd64 0 = 0"
  by (simp add: rnd64_def)

lemma rnd64_minus [simp]: "rnd64 (- x) = - rnd64 x"
  by (simp add: rnd64_def Let_def)

lemma rnd64_binade:
  assumes "0 < x"
  shows "2 powi ilog2 x \<le> rnd64 x" and "rnd64 x \<le> 2 powi (ilog2 x + 1)"
proof -
  let ?q = "x / 2 powi (ilog2 x - 52)"
  have "2 ^ 52 \<le> round_even ?q"
    using scaled_bounds(1) [OF assms] by (intro round_even_ge) simp
  then have lo: "(2::rat) ^ 52 \<le> of_int (round_even ?q)"
    by (metis of_int_le_iff of_int_numeral of_int_power)
  have "round_even ?q \<le> 2 ^ 53"
    using scaled_bounds(2) [OF assms] by (intro round_even_le) simp
  then have hi: "of_int (round_even ?q) \<le> (2::rat) ^ 53"
    by (metis of_int_le_iff of_int_numeral of_int_power)
  have "(2::rat) powi ilog2 x = 2 ^ 52 * 2 powi (ilog2 x - 52)"
    by (simp add: power_int_diff)
  with lo show "2 powi ilog2 x \<le> rnd64 x"
    by (simp add: rnd64_pos [OF assms] mult_right_mono)
  have "(2::rat) powi (ilog2 x + 1) = 2 ^ 53 * 2 powi (ilog2 x - 52)"
    by (simp add: power_int_diff power_int_add)
  with hi show "rnd64 x \<le> 2 powi (ilog2 x + 1)"
    by (simp add: rnd64_pos [OF assms] mult_right_mono)
qed

lemma rnd64_pos_pos: "0 < x \<Longrightarrow> 0 < rnd64 x"
  using rnd64_binade(1) [of x] zero_less_power_int [of "2::rat" "ilog2 x"] by linarith

lemma rnd64_mono_pos:
  assumes "0 < x" and "x \<le> y"
  shows "rnd64 x \<le> rnd64 y"
proof (cases "ilog2 x = ilog2 y")
  case True
  let ?u = "(2::rat) powi (ilog2 y - 52)"
  from assms(2) have "x / ?u \<le> y / ?u" by (simp add: divide_right_mono)
  then have "round_even (x / ?u) \<le> round_even (y / ?u)" by (rule round_even_mono)
  with assms True show ?thesis by (simp add: rnd64_pos mult_right_mono)
next
  case False
  with ilog2_mono [OF assms] have "ilog2 x + 1 \<le> ilog2 y" by simp
  then have "(2::rat) powi (ilog2 x + 1) \<le> 2 powi ilog2 y"
    using powi_two_less_iff [of "ilog2 y" "ilog2 x + 1"] by linarith
  with rnd64_binade(2) [of x] rnd64_binade(1) [of y] assms show ?thesis by linarith
qed

lemma rnd64_mono:
  assumes "x \<le> y"
  shows "rnd64 x \<le> rnd64 y"
proof -
  consider "0 < x" | "x \<le> 0" "0 \<le> y" | "y < 0" by linarith
  then show ?thesis
  proof cases
    case 1
    then show ?thesis using assms by (rule rnd64_mono_pos)
  next
    case 2
    have "rnd64 x \<le> 0"
      using 2 rnd64_pos_pos [of "- x"] by (cases "x = 0") simp_all
    moreover have "0 \<le> rnd64 y"
      using 2 rnd64_pos_pos [of y] by (cases "y = 0") simp_all
    ultimately show ?thesis by linarith
  next
    case 3
    with assms have "rnd64 (- y) \<le> rnd64 (- x)" by (intro rnd64_mono_pos) simp_all
    then show ?thesis by simp
  qed
qed

lemma rnd64_nonneg: "0 \<le> x \<Longrightarrow> 0 \<le> rnd64 x"
  using rnd64_mono [of 0 x] by simp

text \<open>A multiple of a power of two with a significand of at most 53 bits is exact.\<close>

lemma rnd64_exact:
  assumes "0 < m" and "m \<le> 2 ^ 53"
  shows "rnd64 (of_int m * 2 powi e) = of_int m * 2 powi e"
proof -
  let ?x = "(of_int m :: rat) * 2 powi e"
  have pos: "0 < ?x" using assms(1) by simp
  define k where "k = ilog2 ?x - 52"
  from assms(2) have "(of_int m :: rat) \<le> 2 ^ 53"
    by (metis of_int_le_iff of_int_numeral of_int_power)
  then have "?x \<le> 2 ^ 53 * 2 powi e" by (simp add: mult_right_mono)
  also have "\<dots> = 2 powi (e + 53)" by (simp add: power_int_add)
  finally have le: "?x \<le> 2 powi (e + 53)" .
  have rnd: "rnd64 ?x = of_int (round_even (?x / 2 powi k)) * 2 powi k"
    using pos by (simp only: rnd64_pos k_def)
  show ?thesis
  proof (cases "k \<le> e")
    case True
    then obtain d where e: "e = k + int d" using zle_iff_zadd by auto
    have "?x / 2 powi k = of_int (m * 2 ^ d)"
      by (simp add: e power_int_add)
    then have "round_even (?x / 2 powi k) = m * 2 ^ d"
      by (simp only: round_even_int)
    then have "rnd64 ?x = of_int (m * 2 ^ d) * 2 powi k" by (simp only: rnd)
    then show ?thesis by (simp add: e power_int_add)
  next
    case False
    from le ilog2_bounds(1) [OF pos] have "(2::rat) powi ilog2 ?x \<le> 2 powi (e + 53)"
      by linarith
    then have "\<not> (2::rat) powi (e + 53) < 2 powi ilog2 ?x" by simp
    then have "ilog2 ?x \<le> e + 53" by (simp add: powi_two_less_iff)
    with False have k: "k = e + 1" by (simp add: k_def)
    then have "ilog2 ?x = e + 53" by (simp add: k_def)
    with le ilog2_bounds(1) [OF pos] have x: "?x = 2 powi (e + 53)" by simp
    have "?x / 2 powi k = of_int (2 ^ 52)"
      unfolding x k by (simp add: power_int_add)
    then have "round_even (?x / 2 powi k) = 2 ^ 52"
      by (simp only: round_even_int)
    then have "rnd64 ?x = 2 ^ 52 * 2 powi k" by (simp add: rnd)
    also have "\<dots> = ?x" unfolding x k by (simp add: power_int_add)
    finally show ?thesis .
  qed
qed

lemma is_float64_rnd64 [simp, intro]: "is_float64 (rnd64 x)"
proof -
  have pos: "rnd64 (rnd64 x) = rnd64 x" if "0 < x" for x
  proof -
    let ?m = "round_even (x / 2 powi (ilog2 x - 52))"
    have "2 ^ 52 \<le> ?m" using scaled_bounds(1) [OF that] by (intro round_even_ge) simp
    moreover have "?m \<le> 2 ^ 53" using scaled_bounds(2) [OF that] by (intro round_even_le) simp
    ultimately show ?thesis
      unfolding rnd64_pos [OF that] by (intro rnd64_exact) simp_all
  qed
  consider "0 < x" | "x = 0" | "0 < - x" by linarith
  then have "rnd64 (rnd64 x) = rnd64 x"
  proof cases
    case 3
    with pos [of "- x"] show ?thesis by simp
  qed (use pos in simp_all)
  then show ?thesis by (simp add: is_float64_def)
qed

lemma is_float64_0 [simp]: "is_float64 0"
  by (simp add: is_float64_def)

lemma is_float64_nat:
  assumes "n \<le> 2 ^ 53"
  shows "is_float64 (of_nat n)"
proof (cases "n = 0")
  case False
  with assms have "rnd64 (of_int (int n) * 2 powi 0) = of_int (int n) * 2 powi 0"
    by (intro rnd64_exact) simp_all
  then show ?thesis by (simp add: is_float64_def)
qed simp

lemma float64_of_int_mono: "a \<le> b \<Longrightarrow> float64_of_int a \<le> float64_of_int b"
  by (simp add: float64_of_int_def rnd64_mono)

lemma float64_of_int_nonneg: "0 \<le> a \<Longrightarrow> 0 \<le> float64_of_int a"
  by (simp add: float64_of_int_def rnd64_nonneg)

lemma float64_of_u64_mono: "a \<le> b \<Longrightarrow> float64_of_u64 a \<le> float64_of_u64 b"
  by (simp add: float64_of_u64_def float64_of_int_mono word_le_def)

lemma float64_of_u64_nonneg: "0 \<le> float64_of_u64 a"
  by (simp add: float64_of_u64_def float64_of_int_nonneg)

lemma float64_of_int_exact: "0 \<le> n \<Longrightarrow> n \<le> 2 ^ 53 \<Longrightarrow> float64_of_int n = of_int n"
  using is_float64_nat [of "nat n"] by (simp add: float64_of_int_def is_float64_def)

lemma float64_of_int_pos: "0 < n \<Longrightarrow> 0 < float64_of_int n"
  by (simp add: float64_of_int_def rnd64_pos_pos)

lemma fadd_increases: "is_float64 a \<Longrightarrow> 0 \<le> b \<Longrightarrow> a \<le> fadd a b"
  using rnd64_mono [of a "a + b"] by (simp add: fadd_def is_float64_def)

lemma fdiv_nonneg: "0 \<le> a \<Longrightarrow> 0 \<le> b \<Longrightarrow> 0 \<le> fdiv a b"
  by (simp add: fdiv_def rnd64_nonneg)

lemma fdiv_mono: "a \<le> a' \<Longrightarrow> 0 \<le> b \<Longrightarrow> fdiv a b \<le> fdiv a' b"
  by (simp add: fdiv_def rnd64_mono divide_right_mono)

lemma fdiv_le_1: "0 < b \<Longrightarrow> a \<le> b \<Longrightarrow> fdiv a b \<le> 1"
  using rnd64_mono [of "a / b" 1] is_float64_nat [of 1] by (simp add: fdiv_def is_float64_def)

lemma fdiv_self: "0 < b \<Longrightarrow> fdiv b b = 1"
  using is_float64_nat [of 1] by (simp add: fdiv_def is_float64_def)

end
