(* ===== verification/ProcSystem.thy ===== *)
theory ProcSystem
  imports Procfs Float64
begin

text \<open>
  \<^verbatim>\<open>internal/procfs/system.go\<close>: the constants that turn raw values into units, and the cache of
  user names.
\<close>

section \<open>System constants\<close>

record system =
  sys_clock_ticks :: go_int
  sys_page_size :: go_int
  sys_boot_time :: float64
  sys_proc_path :: string
  sys_smaps_rollup :: bool

definition ticks_to_seconds :: "system \<Rightarrow> u64 \<Rightarrow> float64" where
  "ticks_to_seconds sys ticks =
     (if sys_clock_ticks sys \<le> 0 then 0
      else fdiv (float64_of_u64 ticks) (float64_of_int (sys_clock_ticks sys)))"

definition pages_to_bytes :: "system \<Rightarrow> u64 \<Rightarrow> u64" where
  "pages_to_bytes sys pages = pages * word_of_int (sys_page_size sys)"

definition start_time_unix :: "system \<Rightarrow> u64 \<Rightarrow> float64" where
  "start_time_unix sys start_ticks = fadd (sys_boot_time sys) (ticks_to_seconds sys start_ticks)"

text \<open>
  The output of \<^verbatim>\<open>getconf CLK_TCK\<close>, \<^const>\<open>None\<close> when the command fails. \<^verbatim>\<open>strconv.ParseInt\<close> in base
  10 and 64 bits is \<^const>\<open>atoi\<close>.
\<close>

definition clock_ticks :: "string option \<Rightarrow> go_int" where
  "clock_ticks out =
     (case out of
        None \<Rightarrow> 100
      | Some s \<Rightarrow>
         (case atoi (trim_space s) of
            (n, None) \<Rightarrow> if 0 < n then n else 100
          | (_, Some _) \<Rightarrow> 100))"

text \<open>
  \<^verbatim>\<open>strconv.ParseFloat\<close> on decimal numbers: an optional sign, digits with an optional point, and an
  optional exponent; the value is rounded once, and one beyond the largest number is a range error.
  Hexadecimal numbers and the words for infinity and not-a-number, which \<^typ>\<open>float64\<close> does not have,
  are outside the model and read as syntax errors here.
\<close>

fun parse_digits :: "int \<Rightarrow> string \<Rightarrow> int option" where
  "parse_digits n [] = Some n"
| "parse_digits n (c # s) =
     (case digit_val c of None \<Rightarrow> None | Some d \<Rightarrow> parse_digits (n * 10 + int d) s)"

definition split_sign :: "string \<Rightarrow> bool \<times> string" where
  "split_sign s =
     (case s of
        c # r \<Rightarrow> if c = CHR ''-'' then (True, r) else if c = CHR ''+'' then (False, r) else (False, s)
      | [] \<Rightarrow> (False, s))"

definition parse_exponent :: "string \<Rightarrow> int option" where
  "parse_exponent s =
     (case s of
        [] \<Rightarrow> Some 0
      | c # r \<Rightarrow>
          if c \<noteq> CHR ''e'' \<and> c \<noteq> CHR ''E'' then None
          else case split_sign r of (neg, ds) \<Rightarrow>
            if ds = [] then None else map_option (\<lambda>e. if neg then - e else e) (parse_digits 0 ds))"

definition digits_prefix :: "string \<Rightarrow> string" where
  "digits_prefix s = takeWhile (\<lambda>c. digit_val c \<noteq> None) s"

definition parse_float :: "string \<Rightarrow> go_error + float64" where
  "parse_float s =
     (let (neg, s1) = split_sign s;
          whole = digits_prefix s1; s2 = drop (length whole) s1;
          (frac, s3) = (case s2 of
              c # r \<Rightarrow> if c = CHR ''.'' then (digits_prefix r, drop (length (digits_prefix r)) r) else ([], s2)
            | [] \<Rightarrow> ([], []))
      in case (if whole = [] \<and> frac = [] then None else parse_digits 0 (whole @ frac), parse_exponent s3) of
           (Some n, Some e) \<Rightarrow>
             (let v = rnd64 (of_int n * 10 powi (e - int (length frac)))
              in if 2 ^ 1024 \<le> v then Inl (NumError ErrRange) else Inr (if neg then - v else v))
         | _ \<Rightarrow> Inl (NumError ErrSyntax))"

fun boot_time_loop :: "(string \<times> go_error option) list \<Rightarrow> go_error option \<Rightarrow> go_error + float64" where
  "boot_time_loop [] e =
     (case e of Some err \<Rightarrow> Inl err | None \<Rightarrow> Inl (ErrorString ''btime not found''))"
| "boot_time_loop ((line, _) # ts) e =
     (if \<not> has_prefix line ''btime '' then boot_time_loop ts e
      else parse_float (trim_space (drop 6 line)))"

definition boot_time :: "os_file \<Rightarrow> go_error + float64" where
  "boot_time f =
     (case f of OpenErr e \<Rightarrow> Inl e
      | File data err \<Rightarrow>
         (case scan_lines max_scan_token_size [] data err of (ts, e) \<Rightarrow> boot_time_loop ts e))"

text \<open>
  \<^verbatim>\<open>NewSystem\<close>: the arguments after the path are \<^verbatim>\<open>/proc/stat\<close>, the output of \<^verbatim>\<open>getconf\<close>, the
  page size of the process and whether \<^verbatim>\<open>/proc/self/smaps_rollup\<close> exists.
\<close>

definition new_system ::
  "string \<Rightarrow> os_file \<Rightarrow> string option \<Rightarrow> go_int \<Rightarrow> bool \<Rightarrow> go_error + system" where
  "new_system proc_path stat_file getconf page_size rollup =
     (let path = (if proc_path = [] then ''/proc'' else proc_path)
      in case boot_time stat_file of
           Inl e \<Rightarrow> Inl (Wrap ''procfs: read boot time'' e)
         | Inr bt \<Rightarrow> Inr \<lparr>sys_clock_ticks = clock_ticks getconf, sys_page_size = page_size,
              sys_boot_time = bt, sys_proc_path = path, sys_smaps_rollup = rollup\<rparr>)"

lemma parse_digits_append:
  "parse_digits n (s @ t) = (case parse_digits n s of None \<Rightarrow> None | Some m \<Rightarrow> parse_digits m t)"
  by (induction n s rule: parse_digits.induct) (auto split: option.split)

lemma parse_digits_format: "parse_digits 0 (format_uint n) = Some (int n)"
proof (induction n rule: format_uint.induct)
  case (1 n)
  show ?case
  proof (cases "n < 10")
    case False
    have "int (n div 10) * 10 + int (n mod 10) = int n" by presburger
    with False 1 show ?thesis by (simp add: format_uint.simps [of n] parse_digits_append)
  qed (simp add: format_uint.simps [of n])
qed

lemma digits_prefix_format: "digits_prefix (format_uint n) = format_uint n"
  using format_uint_digits [of n] by (auto simp: digits_prefix_def takeWhile_eq_all_conv)

lemma split_sign_format: "split_sign (format_uint n) = (False, format_uint n)"
proof -
  obtain d r where "format_uint n = digit_char d # r" "d < 10"
    using format_uint_digits [of n] by (cases "format_uint n") auto
  then show ?thesis by (simp add: split_sign_def digit_char_not_sign)
qed

lemma parse_float_format: "n \<le> 2 ^ 53 \<Longrightarrow> parse_float (format_uint n) = Inr (of_nat n)"
  using float64_of_int_exact [of "int n"]
  by (simp add: parse_float_def split_sign_format digits_prefix_format parse_digits_format parse_exponent_def
      float64_of_int_def)

lemma trim_space_word:
  assumes "plain_word w"
  shows "trim_space w = w"
proof -
  note ends = plain_word_ends [OF assms]
  then have "space_len w = 0" by (cases w) (simp_all add: space_len_plain)
  then have "trim_space_left w = w" by (simp add: trim_space_left.simps [of w])
  then show ?thesis using ends plain_trim_right by (simp add: trim_space_def)
qed

lemma boot_time_loop_skip:
  "\<forall>l \<in> set ls. \<not> has_prefix l ''btime '' \<Longrightarrow>
    boot_time_loop (map (\<lambda>l. (l, None)) ls @ ts) e = boot_time_loop ts e"
  by (induction ls) auto

text \<open>
  The system constants read from a \<^verbatim>\<open>/proc/stat\<close> of the documented shape: whatever other lines it
  has, the boot time is exactly the number after \<^verbatim>\<open>btime\<close>.
\<close>

lemma new_system_boot_time:
  assumes "\<forall>l \<in> set ls. \<not> has_prefix l ''btime ''" and "n \<le> 2 ^ 53"
    and "\<forall>l \<in> set (ls @ [''btime '' @ format_uint n] @ ls'). short_line max_scan_token_size l"
  shows "new_system path (File (unlines (ls @ [''btime '' @ format_uint n] @ ls')) None) getconf page rollup
    = Inr \<lparr>sys_clock_ticks = clock_ticks getconf, sys_page_size = page, sys_boot_time = of_nat n,
        sys_proc_path = (if path = [] then ''/proc'' else path), sys_smaps_rollup = rollup\<rparr>"
proof -
  have "scan_lines max_scan_token_size [] (unlines (ls @ [''btime '' @ format_uint n] @ ls')) None
      = (map (\<lambda>l. (l, None)) (ls @ [''btime '' @ format_uint n] @ ls'), None)"
    by (rule scan_lines_unlines [OF assms(3)]) (simp add: max_scan_token_size_def)
  then have "boot_time (File (unlines (ls @ [''btime '' @ format_uint n] @ ls')) None) = Inr (of_nat n)"
    using boot_time_loop_skip [OF assms(1)] parse_float_format [OF assms(2)]
    by (simp add: boot_time_def has_prefix_def trim_space_word)
  then show ?thesis by (simp add: new_system_def)
qed

section \<open>User names\<close>

type_synonym user_cache = "(u32, string) gmap"

text \<open>\<open>lookup_id\<close> is \<^verbatim>\<open>user.LookupId\<close>, which asks the operating system.\<close>

definition user_name ::
  "(string \<Rightarrow> string option) \<Rightarrow> u32 \<Rightarrow> user_cache \<Rightarrow> string \<times> user_cache" where
  "user_name lookup_id uid c =
     (case map_of c uid of
        Some name \<Rightarrow> (name, c)
      | None \<Rightarrow>
          let decimal = format_uint (unat uid);
              fallback = (case lookup_id decimal of
                  Some u \<Rightarrow> if u \<noteq> [] then u else ''uid:'' @ decimal
                | None \<Rightarrow> ''uid:'' @ decimal)
          in (fallback, AList.update uid fallback c))"

text \<open>One line of \<^verbatim>\<open>/etc/passwd\<close> in \<^verbatim>\<open>Refresh\<close>.\<close>

definition passwd_line :: "string \<Rightarrow> user_cache \<Rightarrow> user_cache" where
  "passwd_line line m =
     (if line = [] \<or> has_prefix line ''#'' then m
      else let parts = split_byte (CHR '':'') line
           in if length parts < 3 then m
              else case parse_uint max_u32 (parts ! 2) of
                (uid, None) \<Rightarrow> AList.update (word_of_int uid) (parts ! 0) m
              | (_, Some _) \<Rightarrow> m)"

definition refresh_users :: "os_file \<Rightarrow> user_cache" where
  "refresh_users f =
     (case f of OpenErr e \<Rightarrow> []
      | File data err \<Rightarrow>
          fold (\<lambda>t. passwd_line (fst t)) (fst (scan_lines max_scan_token_size [] data err)) [])"

section \<open>Lemmas\<close>

lemma ticks_to_seconds_nonneg: "0 \<le> ticks_to_seconds sys t"
  by (simp add: ticks_to_seconds_def fdiv_nonneg float64_of_u64_nonneg float64_of_int_nonneg)

lemma clock_ticks_pos: "0 < clock_ticks out"
  by (auto simp: clock_ticks_def split: option.splits prod.splits)

lemma user_name_wf [wf_intros]: "gmap_wf c \<Longrightarrow> gmap_wf (snd (user_name lookup_id uid c))"
  by (auto simp: user_name_def Let_def wf_intros split: option.splits)

lemma user_name_cached:
  "user_name lookup_id uid c = (n, c') \<Longrightarrow> user_name lookup_id' uid c' = (n, c')"
  by (auto simp: user_name_def Let_def gmap_simps split: option.splits)

lemma user_name_frame:
  "user_name lookup_id uid c = (n, c') \<Longrightarrow> map_of c u = Some m \<Longrightarrow> map_of c' u = Some m"
  by (auto simp: user_name_def Let_def gmap_simps split: option.splits if_splits)

lemma refresh_users_wf [wf_intros]: "gmap_wf (refresh_users f)"
proof -
  have "gmap_wf (fold (\<lambda>t. passwd_line (fst t)) ts m)" if "gmap_wf m" for ts and m :: user_cache
    using that
    by (induction ts arbitrary: m)
       (auto simp: passwd_line_def Let_def wf_intros split: prod.splits option.splits)
  from this [OF gmap_wf_empty] show ?thesis
    by (auto simp: refresh_users_def split: os_file.splits)
qed

end
