(* ===== verification/StateMap.thy ===== *)
theory StateMap
  imports Float64
begin

text \<open>
  \<^verbatim>\<open>internal/scan/state.go\<close>: the per-PID memory between scans. The interface the scanner relies
  on is the locale \<open>pid_store\<close>: what a lookup sees after each operation, in terms of the entries
  of the store, and its client lemmas follow the store through a scan. The map of the code is
  shown to be such a store.
\<close>

section \<open>The state of a process\<close>

record pid_state =
  ps_start_ticks :: u64
  ps_generation :: u64
  ps_utime_ticks :: u64
  ps_stime_ticks :: u64
  ps_minor_faults :: u64
  ps_major_faults :: u64
  ps_vol_ctx_sw :: u64
  ps_invol_ctx_sw :: u64
  ps_read_bytes :: u64
  ps_write_bytes :: u64
  ps_name :: string
  ps_user :: string
  ps_uid :: u32
  ps_open_fds :: go_int
  ps_max_fds :: go_int
  ps_fd_ratio :: float64
  ps_have_fds :: bool
  ps_pss_bytes :: u64
  ps_swap_pss_bytes :: u64
  ps_have_pss :: bool

record state_map =
  sm_m :: "(go_int, pid_state) gmap"
  sm_gen :: u64

definition new_state_map :: state_map where
  "new_state_map = \<lparr>sm_m = [], sm_gen = 0\<rparr>"

definition next_generation :: "state_map \<Rightarrow> state_map" where
  "next_generation s = s\<lparr>sm_gen := sm_gen s + 1\<rparr>"

definition generation :: "state_map \<Rightarrow> u64" where
  "generation s = sm_gen s"

text \<open>A lookup deletes the entry of another process that had the same PID.\<close>

definition sm_lookup :: "go_int \<Rightarrow> u64 \<Rightarrow> state_map \<Rightarrow> state_map \<times> pid_state option" where
  "sm_lookup pid start_ticks s =
     (case map_of (sm_m s) pid of
        None \<Rightarrow> (s, None)
      | Some st \<Rightarrow>
          if ps_start_ticks st \<noteq> start_ticks
          then (s\<lparr>sm_m := AList.delete pid (sm_m s)\<rparr>, None)
          else (s, Some st))"

definition sm_put :: "go_int \<Rightarrow> pid_state \<Rightarrow> state_map \<Rightarrow> state_map" where
  "sm_put pid st s = s\<lparr>sm_m := AList.update pid (st\<lparr>ps_generation := sm_gen s\<rparr>) (sm_m s)\<rparr>"

definition sm_touch :: "go_int \<Rightarrow> state_map \<Rightarrow> state_map" where
  "sm_touch pid s =
     (case map_of (sm_m s) pid of
        None \<Rightarrow> s
      | Some st \<Rightarrow> s\<lparr>sm_m := AList.update pid (st\<lparr>ps_generation := sm_gen s\<rparr>) (sm_m s)\<rparr>)"

text \<open>The loop of \<^verbatim>\<open>Prune\<close>: the entries that stay, and the number of the deleted ones.\<close>

definition sm_prune :: "state_map \<Rightarrow> state_map \<times> nat" where
  "sm_prune s =
     (let old = (\<lambda>kv. ps_generation (snd kv) < sm_gen s)
      in (s\<lparr>sm_m := filter (\<lambda>kv. \<not> old kv) (sm_m s)\<rparr>, length (filter old (sm_m s))))"

definition sm_len :: "state_map \<Rightarrow> nat" where
  "sm_len s = length (sm_m s)"

definition delta :: "u64 \<Rightarrow> u64 \<Rightarrow> u64" where
  "delta now prev = (if now < prev then 0 else now - prev)"

section \<open>Views and invariants\<close>

definition sm_entry :: "state_map \<Rightarrow> go_int \<Rightarrow> pid_state option" where
  "sm_entry s = map_of (sm_m s)"

definition sm_wf :: "state_map \<Rightarrow> bool" where
  "sm_wf s \<longleftrightarrow> gmap_wf (sm_m s)"

section \<open>The interface of the store\<close>

locale pid_store =
  fixes entry :: "'m \<Rightarrow> go_int \<Rightarrow> pid_state option"
    and gen :: "'m \<Rightarrow> u64"
    and wf :: "'m \<Rightarrow> bool"
    and lookup :: "go_int \<Rightarrow> u64 \<Rightarrow> 'm \<Rightarrow> 'm \<times> pid_state option"
    and put :: "go_int \<Rightarrow> pid_state \<Rightarrow> 'm \<Rightarrow> 'm"
    and touch :: "go_int \<Rightarrow> 'm \<Rightarrow> 'm"
    and advance :: "'m \<Rightarrow> 'm"
    and prune :: "'m \<Rightarrow> 'm"
    and size :: "'m \<Rightarrow> nat"
  assumes lookup_result: "snd (lookup p t m) =
      (case entry m p of None \<Rightarrow> None | Some st \<Rightarrow> if ps_start_ticks st = t then Some st else None)"
    and entry_lookup: "entry (fst (lookup p t m)) q = (if q = p then snd (lookup p t m) else entry m q)"
    and entry_put: "entry (put p st m) q = (if q = p then Some (st\<lparr>ps_generation := gen m\<rparr>) else entry m q)"
    and entry_touch: "entry (touch p m) q =
      (if q = p then map_option (\<lambda>st. st\<lparr>ps_generation := gen m\<rparr>) (entry m p) else entry m q)"
    and entry_advance: "entry (advance m) q = entry m q"
    and entry_prune: "wf m \<Longrightarrow> entry (prune m) q =
      (case entry m q of None \<Rightarrow> None | Some st \<Rightarrow> if ps_generation st < gen m then None else Some st)"
    and gen_lookup: "gen (fst (lookup p t m)) = gen m"
    and gen_put: "gen (put p st m) = gen m"
    and gen_touch: "gen (touch p m) = gen m"
    and gen_advance: "gen (advance m) = gen m + 1"
    and gen_prune: "gen (prune m) = gen m"
    and wf_lookup: "wf m \<Longrightarrow> wf (fst (lookup p t m))"
    and wf_put: "wf m \<Longrightarrow> wf (put p st m)"
    and wf_touch: "wf m \<Longrightarrow> wf (touch p m)"
    and wf_advance: "wf m \<Longrightarrow> wf (advance m)"
    and wf_prune: "wf m \<Longrightarrow> wf (prune m)"
    and size_card: "wf m \<Longrightarrow> size m = card {p. entry m p \<noteq> None} \<and> finite {p. entry m p \<noteq> None}"
begin

text \<open>
  \<open>stamps m\<close>: no entry is stamped later than the current generation. \<open>seen_in ps m\<close>: the entries
  stamped in the current generation are processes of \<open>ps\<close>, the ones the scan has visited.
\<close>

lemmas entries = entry_lookup entry_put entry_touch entry_advance
lemmas gens = gen_lookup gen_put gen_touch gen_advance gen_prune
lemmas wfs = wf_lookup wf_put wf_touch wf_advance wf_prune

lemma lookup_same: "snd (lookup p t m) = Some st \<Longrightarrow> entry m p = Some st \<and> ps_start_ticks st = t"
  by (auto simp: lookup_result split: option.splits if_splits)

lemma lookup_reused:
  "entry m p = Some st \<Longrightarrow> ps_start_ticks st \<noteq> t \<Longrightarrow>
    snd (lookup p t m) = None \<and> entry (fst (lookup p t m)) p = None"
  by (simp add: entry_lookup lookup_result)

lemma put_then_lookup:
  "ps_start_ticks st = t \<Longrightarrow> snd (lookup p t (put p st m)) = Some (st\<lparr>ps_generation := gen m\<rparr>)"
  by (simp add: lookup_result entry_put)

lemma entry_lookup_old: "entry (fst (lookup p t m)) q = Some st \<Longrightarrow> entry m q = Some st"
  using lookup_same by (auto simp: entry_lookup split: if_splits)

lemma stamps_lookup:
  "\<forall>q st. entry m q = Some st \<longrightarrow> ps_generation st \<le> gen m \<Longrightarrow>
   \<forall>q st. entry (fst (lookup p t m)) q = Some st \<longrightarrow> ps_generation st \<le> gen (fst (lookup p t m))"
  by (auto simp: gens dest: entry_lookup_old)

lemma stamps_put:
  "\<forall>q st. entry m q = Some st \<longrightarrow> ps_generation st \<le> gen m \<Longrightarrow>
   \<forall>q st. entry (put p s m) q = Some st \<longrightarrow> ps_generation st \<le> gen (put p s m)"
  by (auto simp: gens entries)

lemma stamps_touch:
  "\<forall>q st. entry m q = Some st \<longrightarrow> ps_generation st \<le> gen m \<Longrightarrow>
   \<forall>q st. entry (touch p m) q = Some st \<longrightarrow> ps_generation st \<le> gen (touch p m)"
  by (auto simp: gens entries)

lemma stamps_prune:
  "wf m \<Longrightarrow> \<forall>q st. entry m q = Some st \<longrightarrow> ps_generation st \<le> gen m \<Longrightarrow>
   \<forall>q st. entry (prune m) q = Some st \<longrightarrow> ps_generation st = gen m"
  by (auto simp: entry_prune not_less split: option.splits if_splits intro: order_antisym)

lemma seen_advance:
  assumes "unat (gen m) + 1 < 2 ^ 64"
    and "\<forall>q st. entry m q = Some st \<longrightarrow> ps_generation st \<le> gen m"
  shows "\<forall>q st. entry (advance m) q = Some st \<longrightarrow> ps_generation st < gen (advance m)"
  using assms(2) u64_suc(2) [OF assms(1)] by (auto simp: entries gens intro: le_less_trans)

text \<open>After a pruning only the processes stamped in this generation are left.\<close>

lemma prune_seen:
  assumes "wf m"
    and "\<forall>q st. entry m q = Some st \<longrightarrow> ps_generation st < gen m \<or> q \<in> ps"
    and "entry (prune m) q \<noteq> None"
  shows "q \<in> ps"
  using assms by (auto simp: entry_prune split: option.splits if_splits)

lemma size_bounded:
  assumes "wf m" and "\<forall>q. entry m q \<noteq> None \<longrightarrow> q \<in> set ps"
  shows "size m \<le> length ps"
proof -
  have "card {p. entry m p \<noteq> None} \<le> card (set ps)"
    using assms(2) by (intro card_mono) auto
  also have "\<dots> \<le> length ps" by (rule card_length)
  finally show ?thesis using size_card [OF assms(1)] by simp
qed

end

section \<open>The state map is such a store\<close>

lemma sm_lookup_cases:
  "sm_lookup p t m =
    (case sm_entry m p of
       None \<Rightarrow> (m, None)
     | Some st \<Rightarrow> if ps_start_ticks st = t then (m, Some st)
         else (m\<lparr>sm_m := AList.delete p (sm_m m)\<rparr>, None))"
  by (simp add: sm_lookup_def sm_entry_def split: option.split)

interpretation sm: pid_store sm_entry generation sm_wf sm_lookup sm_put sm_touch next_generation
    "\<lambda>m. fst (sm_prune m)" sm_len
proof unfold_locales
  fix p q t m st
  show "snd (sm_lookup p t m) =
      (case sm_entry m p of None \<Rightarrow> None | Some st \<Rightarrow> if ps_start_ticks st = t then Some st else None)"
    by (simp add: sm_lookup_cases split: option.split)
  show "sm_entry (fst (sm_lookup p t m)) q = (if q = p then snd (sm_lookup p t m) else sm_entry m q)"
    by (simp add: sm_lookup_cases split: option.split) (simp add: sm_entry_def gmap_simps)
  show "sm_entry (sm_put p st m) q =
      (if q = p then Some (st\<lparr>ps_generation := generation m\<rparr>) else sm_entry m q)"
    by (simp add: sm_entry_def sm_put_def generation_def gmap_simps)
  show "sm_entry (sm_touch p m) q =
      (if q = p then map_option (\<lambda>st. st\<lparr>ps_generation := generation m\<rparr>) (sm_entry m p) else sm_entry m q)"
    by (simp add: sm_entry_def sm_touch_def generation_def gmap_simps split: option.split)
  show "sm_entry (next_generation m) q = sm_entry m q"
    by (simp add: sm_entry_def next_generation_def)
  show "generation (fst (sm_lookup p t m)) = generation m"
    by (simp add: sm_lookup_cases generation_def split: option.split)
  show "generation (sm_put p st m) = generation m"
    by (simp add: sm_put_def generation_def)
  show "generation (sm_touch p m) = generation m"
    by (simp add: sm_touch_def generation_def split: option.split)
  show "generation (next_generation m) = generation m + 1"
    by (simp add: next_generation_def generation_def)
  show "generation (fst (sm_prune m)) = generation m"
    by (simp add: sm_prune_def generation_def Let_def)
  assume wf: "sm_wf m"
  then show "sm_wf (fst (sm_lookup p t m))"
    by (simp add: sm_lookup_cases sm_wf_def wf_intros split: option.split)
  from wf show "sm_wf (sm_put p st m)" by (simp add: sm_put_def sm_wf_def wf_intros)
  from wf show "sm_wf (sm_touch p m)" by (simp add: sm_touch_def sm_wf_def wf_intros split: option.split)
  from wf show "sm_wf (next_generation m)" by (simp add: next_generation_def sm_wf_def)
  from wf show "sm_wf (fst (sm_prune m))" by (simp add: sm_prune_def sm_wf_def wf_intros Let_def)
  from wf show "sm_entry (fst (sm_prune m)) q =
      (case sm_entry m q of None \<Rightarrow> None
       | Some st \<Rightarrow> if ps_generation st < generation m then None else Some st)"
    by (simp add: sm_prune_def sm_entry_def sm_wf_def generation_def Let_def map_of_filter_gmap
          split: option.split)
  have keys: "{p. sm_entry m p \<noteq> None} = gmap_keys (sm_m m)"
    by (simp only: sm_entry_def gmap_keys_map_of)
  from wf show "sm_len m = card {p. sm_entry m p \<noteq> None} \<and> finite {p. sm_entry m p \<noteq> None}"
    unfolding keys by (simp add: sm_len_def sm_wf_def gmap_length_keys)
qed

section \<open>Deltas\<close>

lemma unat_delta: "unat (delta now prev) = unat now - unat prev"
  by (simp add: delta_def word_less_nat_alt unat_sub word_le_nat_alt)

lemma prune_count:
  "snd (sm_prune s) + sm_len (fst (sm_prune s)) = sm_len s"
  by (simp add: sm_prune_def sm_len_def Let_def sum_length_filter_compl)

text \<open>The sum of the deltas of successive readings, from the first reading on.\<close>

fun deltas :: "u64 \<Rightarrow> u64 list \<Rightarrow> nat" where
  "deltas prev [] = 0"
| "deltas prev (c # cs) = unat (delta c prev) + deltas c cs"

text \<open>
  Accumulating the deltas of successive readings of a counter that does not go backwards
  gives exactly its growth between the first and the last reading.
\<close>

lemma deltas_telescope:
  assumes "sorted (c0 # cs)"
  shows "unat c0 + deltas c0 cs = unat (last (c0 # cs))"
  using assms
proof (induction cs arbitrary: c0)
  case (Cons c cs)
  then have "unat c0 \<le> unat c" and "unat c + deltas c cs = unat (last (c # cs))"
    by (simp_all add: word_le_nat_alt)
  then show ?case by (simp add: unat_delta)
qed simp

end
