(* ===== verification/Scan.thy ===== *)
theory Scan
  imports Namer Procfs ProcSystem StateMap
begin

text \<open>
  \<^verbatim>\<open>internal/scan/scan.go\<close>: one scan of the process list. \<open>read_process\<close> is the method of that
  name, cut into the stages its comments name; each stage returns early with the result so far
  (\<^const>\<open>Inl\<close>) or goes on (\<^const>\<open>Inr\<close>). What the file system, the clock, the context and the
  operating system answer during a scan is the record \<open>scan_world\<close>.
\<close>

section \<open>Data\<close>

record process =
  p_pid :: go_int
  p_ppid :: go_int
  p_comm :: string
  p_name :: string
  p_user :: string
  p_uid :: u32
  p_state :: char
  p_start_ticks :: u64
  p_start_unix :: float64
  p_rss_bytes :: u64
  p_vsize_bytes :: u64
  p_shared_bytes :: u64
  p_data_bytes :: u64
  p_swap_bytes :: u64
  p_threads :: go_int
  p_open_fds :: go_int
  p_max_fds :: go_int
  p_fd_ratio :: float64
  p_pss_bytes :: u64
  p_swap_pss_bytes :: u64
  p_d_utime_ticks :: u64
  p_d_stime_ticks :: u64
  p_d_minor_faults :: u64
  p_d_major_faults :: u64
  p_d_vol_ctx_sw :: u64
  p_d_invol_ctx_sw :: u64
  p_d_read_bytes :: u64
  p_d_write_bytes :: u64
  p_have_deltas :: bool
  p_have_io :: bool
  p_have_fds :: bool
  p_have_status :: bool
  p_have_pss :: bool

text \<open>An instant is a number of nanoseconds. The counters of the code are ints that start at zero.\<close>

type_synonym instant = int

record scan_res =
  rs_procs :: "process list"
  rs_scan_at :: instant
  rs_duration :: duration
  rs_generation :: u64
  rs_total :: nat
  rs_scanned :: nat
  rs_ignored :: nat
  rs_vanished :: nat
  rs_denied :: nat
  rs_read_errs :: "(string, nat) gmap"
  rs_state_entries :: nat
  rs_state_pruned :: nat
  rs_self_cpu :: float64

text \<open>The scanner: its own fields, and the cache of user names it shares through \<^verbatim>\<open>Deps\<close>.\<close>

record scanner =
  sc_state :: state_map
  sc_users :: user_cache
  sc_scan_no :: u64

definition scanner_new :: "user_cache \<Rightarrow> scanner" where
  "scanner_new users = \<lparr>sc_state = new_state_map, sc_users = users, sc_scan_no = 0\<rparr>"

definition reset_state :: "scanner \<Rightarrow> scanner" where
  "reset_state s = s\<lparr>sc_state := new_state_map\<rparr>"

text \<open>What a call of \<^verbatim>\<open>readProcess\<close> is given besides the process: the configuration and the compiled
  filter and namer of this scan, the system constants, the name service, and the two schedules.\<close>

record scan_env =
  se_cfg :: config
  se_filter :: proc_filter
  se_namer :: namer
  se_system :: system
  se_lookup_id :: "string \<Rightarrow> string option"
  se_do_fds :: bool
  se_do_smaps :: bool

section \<open>Helpers\<close>

fun itoa_loop :: "nat \<Rightarrow> string \<Rightarrow> string" where
  "itoa_loop n buf = (if 0 < n then itoa_loop (n div 10) (digit_char (n mod 10) # buf) else buf)"

declare itoa_loop.simps [simp del]

definition itoa :: "go_int \<Rightarrow> string" where
  "itoa n = (if n = 0 then ''0'' else itoa_loop (nat n) [])"

definition uid_string :: "u32 \<Rightarrow> string" where
  "uid_string uid = ''uid:'' @ itoa (uint uid)"

text \<open>The four numbers of \<^verbatim>\<open>Getrusage\<close> the code reads, \<^const>\<open>None\<close> when the call fails.\<close>

record rusage =
  ru_utime_sec :: go_int
  ru_utime_usec :: go_int
  ru_stime_sec :: go_int
  ru_stime_usec :: go_int

definition timeval_seconds :: "go_int \<Rightarrow> go_int \<Rightarrow> float64" where
  "timeval_seconds sec usec = fadd (float64_of_int sec) (fdiv (float64_of_int usec) 1000000)"

definition self_cpu :: "rusage option \<Rightarrow> float64" where
  "self_cpu ru =
     (case ru of None \<Rightarrow> 0
      | Some u \<Rightarrow> fadd (timeval_seconds (ru_utime_sec u) (ru_utime_usec u))
          (timeval_seconds (ru_stime_sec u) (ru_stime_usec u)))"

definition should_scan_fds :: "config \<Rightarrow> u64 \<Rightarrow> bool" where
  "should_scan_fds cfg scan_no =
     (let every = c_fd_scan_every (c_scan cfg)
      in if every \<le> 1 then True
         else scan_no mod word_of_int every = 1 \<or> scan_no = 1)"

definition should_scan_smaps :: "config \<Rightarrow> u64 \<Rightarrow> bool" where
  "should_scan_smaps cfg scan_no =
     (if \<not> c_read_smaps (c_scan cfg) then False
      else let every = c_smaps_scan_every (c_scan cfg)
        in if every \<le> 1 then True
           else if scan_no = 1 then True
           else scan_no mod word_of_int every = word_of_int (every div 2))"

definition compute_deltas :: "process \<Rightarrow> pid_state \<Rightarrow> pid_state \<Rightarrow> process" where
  "compute_deltas p cur prev = p\<lparr>
     p_d_utime_ticks := delta (ps_utime_ticks cur) (ps_utime_ticks prev),
     p_d_stime_ticks := delta (ps_stime_ticks cur) (ps_stime_ticks prev),
     p_d_minor_faults := delta (ps_minor_faults cur) (ps_minor_faults prev),
     p_d_major_faults := delta (ps_major_faults cur) (ps_major_faults prev),
     p_d_vol_ctx_sw := delta (ps_vol_ctx_sw cur) (ps_vol_ctx_sw prev),
     p_d_invol_ctx_sw := delta (ps_invol_ctx_sw cur) (ps_invol_ctx_sw prev),
     p_d_read_bytes := delta (ps_read_bytes cur) (ps_read_bytes prev),
     p_d_write_bytes := delta (ps_write_bytes cur) (ps_write_bytes prev)\<rparr>"

section \<open>The stages of one process\<close>

type_synonym 'a read_step = "scan_res + 'a \<times> scan_res"

definition vanished :: "scan_res \<Rightarrow> scan_res" where
  "vanished r = r\<lparr>rs_vanished := rs_vanished r + 1\<rparr>"

definition read_err :: "string \<Rightarrow> scan_res \<Rightarrow> scan_res" where
  "read_err k r = r\<lparr>rs_read_errs := gmap_inc k (rs_read_errs r)\<rparr>"

definition stat_failed :: "go_error \<Rightarrow> scan_res \<Rightarrow> scan_res" where
  "stat_failed e r =
     (if is_vanished e then vanished r
      else if is_denied e then r\<lparr>rs_denied := rs_denied r + 1\<rparr>
      else read_err ''stat'' r)"

text \<open>A cached string of the previous state, used when \<^verbatim>\<open>cache_cmdline\<close> is set and it is not empty.\<close>

definition cached :: "scan_env \<Rightarrow> pid_state option \<Rightarrow> (pid_state \<Rightarrow> string) \<Rightarrow> pid_state option" where
  "cached env prev get =
     (case prev of None \<Rightarrow> None
      | Some st \<Rightarrow> if c_cache_cmdline (c_scan (se_cfg env)) \<and> get st \<noteq> [] then Some st else None)"

text \<open>The command line, and whether it was read.\<close>

definition cmdline_step ::
  "scan_env \<Rightarrow> pid_state option \<Rightarrow> proc_files \<Rightarrow> scan_res \<Rightarrow> (string list \<times> bool) read_step" where
  "cmdline_step env prev pf r =
     (if f_needs_cmdline (se_filter env) \<or> cached env prev ps_name = None
      then case read_cmdline (pf_cmdline pf) of
          Inr cmdline \<Rightarrow> Inr ((cmdline, True), r)
        | Inl e \<Rightarrow> if is_vanished e then Inl (vanished r) else Inr (([], True), read_err ''cmdline'' r)
      else Inr (([], False), r))"

text \<open>The user: the UID, the name, the status when it was read, and the cache of names.\<close>

definition status_step ::
  "scan_env \<Rightarrow> pid_state option \<Rightarrow> proc_files \<Rightarrow> user_cache \<Rightarrow> scan_res \<Rightarrow>
    (u32 \<times> string \<times> status option \<times> user_cache) read_step" where
  "status_step env prev pf users r =
     (let (uid0, user0) =
            (case cached env prev ps_user of None \<Rightarrow> (0, []) | Some st \<Rightarrow> (ps_uid st, ps_user st))
      in if c_read_status (c_scan (se_cfg env)) \<or> user0 = []
         then case read_status (pf_status pf) of
             Inl e \<Rightarrow>
               if is_vanished e then Inl (vanished r)
               else Inr ((uid0, user0, None, users), read_err ''status'' r)
           | Inr status \<Rightarrow>
               (let uid = ss_uid status
                in if user0 \<noteq> [] then Inr ((uid, user0, Some status, users), r)
                   else if c_resolve_users (c_naming (se_cfg env))
                   then case user_name (se_lookup_id env) uid users of
                       (name, users') \<Rightarrow> Inr ((uid, name, Some status, users'), r)
                   else Inr ((uid, uid_string uid, Some status, users), r))
         else Inr ((uid0, user0, None, users), r))"

definition name_step ::
  "scan_env \<Rightarrow> pid_state option \<Rightarrow> proc_files \<Rightarrow> stat \<Rightarrow> string list \<Rightarrow> string" where
  "name_step env prev pf st cmdline =
     (case cached env prev ps_name of
        Some old \<Rightarrow> ps_name old
      | None \<Rightarrow>
          let exe = (case read_exe (pf_exe pf) of Inl _ \<Rightarrow> [] | Inr e \<Rightarrow> e)
          in namer_name (se_namer env) \<lparr>ni_comm = st_comm st, ni_exe = exe, ni_cmdline = cmdline\<rparr>)"

definition base_process ::
  "system \<Rightarrow> go_int \<Rightarrow> stat \<Rightarrow> status option \<Rightarrow> u32 \<Rightarrow> string \<Rightarrow> string \<Rightarrow> process" where
  "base_process sys pid st status uid user name =
     \<lparr>p_pid = pid, p_ppid = st_ppid st, p_comm = st_comm st, p_name = name, p_user = user,
      p_uid = uid, p_state = st_state st, p_start_ticks = st_start_ticks st,
      p_start_unix = start_time_unix sys (st_start_ticks st),
      p_rss_bytes = pages_to_bytes sys (st_rss_pages st), p_vsize_bytes = st_vsize_bytes st,
      p_shared_bytes = 0, p_data_bytes = 0,
      p_swap_bytes = (case status of None \<Rightarrow> 0 | Some ss \<Rightarrow> ss_swap_bytes ss),
      p_threads = st_threads st, p_open_fds = - 1, p_max_fds = - 1, p_fd_ratio = 0,
      p_pss_bytes = 0, p_swap_pss_bytes = 0,
      p_d_utime_ticks = 0, p_d_stime_ticks = 0, p_d_minor_faults = 0, p_d_major_faults = 0,
      p_d_vol_ctx_sw = 0, p_d_invol_ctx_sw = 0, p_d_read_bytes = 0, p_d_write_bytes = 0,
      p_have_deltas = False, p_have_io = False, p_have_fds = False,
      p_have_status = (status \<noteq> None), p_have_pss = False\<rparr>"

definition statm_step :: "system \<Rightarrow> proc_files \<Rightarrow> process \<Rightarrow> scan_res \<Rightarrow> process read_step" where
  "statm_step sys pf p r =
     (case read_statm (pf_statm pf) of
        Inr sm \<Rightarrow> Inr (p\<lparr>p_rss_bytes := pages_to_bytes sys (sm_resident_pages sm),
            p_vsize_bytes := pages_to_bytes sys (sm_size_pages sm),
            p_shared_bytes := pages_to_bytes sys (sm_shared_pages sm),
            p_data_bytes := pages_to_bytes sys (sm_data_pages sm)\<rparr>, r)
      | Inl e \<Rightarrow> if is_vanished e then Inl (vanished r) else Inr (p, read_err ''statm'' r))"

definition io_step ::
  "scan_env \<Rightarrow> proc_files \<Rightarrow> process \<Rightarrow> scan_res \<Rightarrow> (process \<times> io_counters option) read_step" where
  "io_step env pf p r =
     (if c_read_io (c_scan (se_cfg env))
      then case read_io (pf_io pf) of
          Inr io \<Rightarrow> Inr ((p\<lparr>p_have_io := True\<rparr>, Some io), r)
        | Inl e \<Rightarrow>
            if is_vanished e then Inl (vanished r)
            else if is_denied e then Inr ((p, None), r)
            else Inr ((p, None), read_err ''io'' r)
      else Inr ((p, None), r))"

definition fd_step ::
  "scan_env \<Rightarrow> pid_state option \<Rightarrow> proc_files \<Rightarrow> process \<Rightarrow> scan_res \<Rightarrow> process read_step" where
  "fd_step env prev pf p r =
     (if se_do_fds env
      then case count_fds (pf_fd pf) of
          Inr fds \<Rightarrow>
            (let max_fd = (case max_fds (pf_limits pf) of Inr m \<Rightarrow> m | Inl _ \<Rightarrow> p_max_fds p);
                 p1 = p\<lparr>p_open_fds := int fds, p_have_fds := True, p_max_fds := max_fd\<rparr>
             in Inr (if 0 < max_fd
                     then p1\<lparr>p_fd_ratio := fdiv (float64_of_int (int fds)) (float64_of_int max_fd)\<rparr>
                     else p1, r))
        | Inl e \<Rightarrow>
            if is_vanished e then Inl (vanished r)
            else if is_denied e then Inr (p, r)
            else Inr (p, read_err ''fd'' r)
      else case prev of
          Some old \<Rightarrow>
            if ps_have_fds old
            then Inr (p\<lparr>p_open_fds := ps_open_fds old, p_max_fds := ps_max_fds old,
                p_fd_ratio := ps_fd_ratio old, p_have_fds := True\<rparr>, r)
            else Inr (p, r)
        | None \<Rightarrow> Inr (p, r))"

definition smaps_step ::
  "scan_env \<Rightarrow> pid_state option \<Rightarrow> proc_files \<Rightarrow> process \<Rightarrow> scan_res \<Rightarrow> process read_step" where
  "smaps_step env prev pf p r =
     (if c_read_smaps (c_scan (se_cfg env))
      then if se_do_smaps env
        then case read_smaps (if sys_smaps_rollup (se_system env) then pf_smaps_rollup pf else pf_smaps pf) of
            Inr sm \<Rightarrow> Inr (p\<lparr>p_pss_bytes := sp_pss_bytes sm, p_swap_pss_bytes := sp_swap_pss_bytes sm,
                p_have_pss := True\<rparr>, r)
          | Inl e \<Rightarrow>
              if is_vanished e then Inl (vanished r)
              else if is_denied e then Inr (p, r)
              else Inr (p, read_err ''smaps'' r)
        else case prev of
            Some old \<Rightarrow>
              if ps_have_pss old
              then Inr (p\<lparr>p_pss_bytes := ps_pss_bytes old, p_swap_pss_bytes := ps_swap_pss_bytes old,
                  p_have_pss := True\<rparr>, r)
              else Inr (p, r)
          | None \<Rightarrow> Inr (p, r)
      else Inr (p, r))"

text \<open>The new state of the process. Its generation is set by \<^const>\<open>sm_put\<close>.\<close>

definition new_pid_state ::
  "stat \<Rightarrow> status option \<Rightarrow> io_counters option \<Rightarrow> process \<Rightarrow> pid_state" where
  "new_pid_state st status io p =
     \<lparr>ps_start_ticks = st_start_ticks st, ps_generation = 0,
      ps_utime_ticks = st_utime_ticks st, ps_stime_ticks = st_stime_ticks st,
      ps_minor_faults = st_minor_faults st, ps_major_faults = st_major_faults st,
      ps_vol_ctx_sw = (case status of None \<Rightarrow> 0 | Some ss \<Rightarrow> ss_vol_ctx_sw ss),
      ps_invol_ctx_sw = (case status of None \<Rightarrow> 0 | Some ss \<Rightarrow> ss_invol_ctx_sw ss),
      ps_read_bytes = (case io of None \<Rightarrow> 0 | Some i \<Rightarrow> io_read_bytes i),
      ps_write_bytes = (case io of None \<Rightarrow> 0 | Some i \<Rightarrow> io_write_bytes i),
      ps_name = p_name p, ps_user = p_user p, ps_uid = p_uid p,
      ps_open_fds = p_open_fds p, ps_max_fds = p_max_fds p, ps_fd_ratio = p_fd_ratio p,
      ps_have_fds = p_have_fds p, ps_pss_bytes = p_pss_bytes p,
      ps_swap_pss_bytes = p_swap_pss_bytes p, ps_have_pss = p_have_pss p\<rparr>"

text \<open>The readings of a process that the filter keeps, from \<^verbatim>\<open>statm\<close> to \<^verbatim>\<open>smaps\<close>.\<close>

definition readings ::
  "scan_env \<Rightarrow> pid_state option \<Rightarrow> proc_files \<Rightarrow> process \<Rightarrow> scan_res \<Rightarrow>
    (process \<times> io_counters option) read_step" where
  "readings env prev pf p r =
     (case statm_step (se_system env) pf p r of Inl r1 \<Rightarrow> Inl r1 | Inr (p1, r1) \<Rightarrow>
     (case io_step env pf p1 r1 of Inl r2 \<Rightarrow> Inl r2 | Inr ((p2, io), r2) \<Rightarrow>
     (case fd_step env prev pf p2 r2 of Inl r3 \<Rightarrow> Inl r3 | Inr (p3, r3) \<Rightarrow>
     (case smaps_step env prev pf p3 r3 of Inl r4 \<Rightarrow> Inl r4 | Inr (p4, r4) \<Rightarrow>
        Inr ((p4, io), r4)))))"

definition finish ::
  "go_int \<Rightarrow> pid_state option \<Rightarrow> pid_state \<Rightarrow> process \<Rightarrow> state_map \<Rightarrow> process \<times> state_map" where
  "finish pid prev cur p m =
     (case prev of
        None \<Rightarrow> (p, sm_put pid cur m)
      | Some old \<Rightarrow> ((compute_deltas p cur old)\<lparr>p_have_deltas := True\<rparr>, sm_put pid cur m))"

definition read_process ::
  "scan_env \<Rightarrow> go_int \<Rightarrow> proc_files \<Rightarrow> scanner \<Rightarrow> scan_res \<Rightarrow>
    (scanner \<times> scan_res) \<times> process option" where
  "read_process env pid pf s r =
     (case read_stat (pf_stat pf) of
        Inl e \<Rightarrow> ((s, stat_failed e r), None)
      | Inr st \<Rightarrow>
     (case sm_lookup pid (st_start_ticks st) (sc_state s) of (m, prev) \<Rightarrow>
     (case cmdline_step env prev pf r of
        Inl r1 \<Rightarrow> ((s\<lparr>sc_state := m\<rparr>, r1), None)
      | Inr ((cmdline, cmdline_read), r1) \<Rightarrow>
     (case status_step env prev pf (sc_users s) r1 of
        Inl r2 \<Rightarrow> ((s\<lparr>sc_state := m\<rparr>, r2), None)
      | Inr ((uid, user0, status, users), r2) \<Rightarrow>
     if \<not> fst (keep (se_filter env) \<lparr>fi_comm = st_comm st, fi_cmdline = cmdline, fi_user = user0,
            fi_ppid = st_ppid st,
            fi_is_kernel = (cmdline_read \<and> is_kernel_thread cmdline (st_ppid st))\<rparr>)
     then ((s\<lparr>sc_state := sm_touch pid m, sc_users := users\<rparr>,
            r2\<lparr>rs_ignored := rs_ignored r2 + 1\<rparr>), None)
     else
       (let name = name_step env prev pf st cmdline;
            user = (if user0 = [] then uid_string uid else user0)
        in case readings env prev pf (base_process (se_system env) pid st status uid user name) r2 of
             Inl r3 \<Rightarrow> ((s\<lparr>sc_state := m, sc_users := users\<rparr>, r3), None)
           | Inr ((p, io), r3) \<Rightarrow>
               (case finish pid prev (new_pid_state st status io p) p m of (p', m') \<Rightarrow>
                  ((s\<lparr>sc_state := m', sc_users := users\<rparr>, r3), Some p')))))))"

section \<open>The scan\<close>

text \<open>
  \<open>w_ctx k\<close> is \<^verbatim>\<open>ctx.Err()\<close> before batch \<open>k\<close>, and \<open>w_sleep k\<close> the outcome of the \<^verbatim>\<open>select\<close> after
  it: the error of the context when that case is taken, \<^const>\<open>None\<close> when the sleep ends.
\<close>

record scan_world =
  w_proc :: os_dir
  w_files :: "go_int \<Rightarrow> proc_files"
  w_ctx :: "nat \<Rightarrow> go_error option"
  w_sleep :: "nat \<Rightarrow> go_error option"
  w_start :: instant
  w_elapsed :: duration
  w_cpu_before :: "rusage option"
  w_cpu_after :: "rusage option"

fun read_batch ::
  "scan_env \<Rightarrow> (go_int \<Rightarrow> proc_files) \<Rightarrow> go_int list \<Rightarrow> scanner \<times> scan_res \<Rightarrow> scanner \<times> scan_res" where
  "read_batch env files [] sr = sr"
| "read_batch env files (pid # pids) (s, r) =
     (case read_process env pid (files pid) s r of
        (sr', None) \<Rightarrow> read_batch env files pids sr'
      | ((s', r'), Some p) \<Rightarrow>
          read_batch env files pids
            (s', r'\<lparr>rs_procs := rs_procs r' @ [p], rs_scanned := rs_scanned r' + 1\<rparr>))"

definition batch_size :: "config \<Rightarrow> nat" where
  "batch_size cfg = nat (if c_batch_size (c_scan cfg) < 1 then 1 else c_batch_size (c_scan cfg))"

lemma batch_size_pos: "0 < batch_size cfg"
  by (simp add: batch_size_def)

text \<open>The loop over the batches: \<open>k\<close> is the number of the batch, and \<open>pids\<close> what is left.\<close>

function scan_batches ::
  "scan_env \<Rightarrow> scan_world \<Rightarrow> nat \<Rightarrow> go_int list \<Rightarrow> scanner \<times> scan_res \<Rightarrow>
    scanner \<times> (go_error + scan_res)" where
  "scan_batches env w k pids (s, r) =
     (if pids = [] then (s, Inr r)
      else case w_ctx w k of
        Some e \<Rightarrow> (s, Inl e)
      | None \<Rightarrow>
          (let batch = batch_size (se_cfg env);
               rest = drop batch pids
           in case read_batch env (w_files w) (take batch pids) (s, r) of (s', r') \<Rightarrow>
                if rest \<noteq> [] \<and> 0 < c_batch_sleep (c_scan (se_cfg env))
                then case w_sleep w k of
                    Some e \<Rightarrow> (s', Inl e)
                  | None \<Rightarrow> scan_batches env w (k + 1) rest (s', r')
                else scan_batches env w (k + 1) rest (s', r')))"
  by pat_completeness auto
termination
  by (relation "measure (\<lambda>(_, _, _, pids, _). length pids)") (simp_all add: batch_size_pos)

declare scan_batches.simps [simp del]

definition empty_result :: "instant \<Rightarrow> u64 \<Rightarrow> nat \<Rightarrow> scan_res" where
  "empty_result t0 gen n =
     \<lparr>rs_procs = [], rs_scan_at = t0, rs_duration = 0, rs_generation = gen, rs_total = n,
      rs_scanned = 0, rs_ignored = 0, rs_vanished = 0, rs_denied = 0, rs_read_errs = [],
      rs_state_entries = 0, rs_state_pruned = 0, rs_self_cpu = 0\<rparr>"

definition scan ::
  "system \<Rightarrow> (string \<Rightarrow> string option) \<Rightarrow> config \<Rightarrow> proc_filter \<Rightarrow> namer \<Rightarrow> scan_world \<Rightarrow> scanner \<Rightarrow>
    scanner \<times> (go_error + scan_res)" where
  "scan sys lookup_id cfg f n w s0 =
     (let s = s0\<lparr>sc_state := next_generation (sc_state s0), sc_scan_no := sc_scan_no s0 + 1\<rparr>
      in case list_pids (w_proc w) of
           Inl e \<Rightarrow> (s, Inl e)
         | Inr pids \<Rightarrow>
             (let env = \<lparr>se_cfg = cfg, se_filter = f, se_namer = n, se_system = sys,
                    se_lookup_id = lookup_id, se_do_fds = should_scan_fds cfg (sc_scan_no s),
                    se_do_smaps = should_scan_smaps cfg (sc_scan_no s)\<rparr>
              in case scan_batches env w 0 pids
                    (s, empty_result (w_start w) (generation (sc_state s)) (length pids)) of
                   (s1, Inl e) \<Rightarrow> (s1, Inl e)
                 | (s1, Inr r) \<Rightarrow>
                     (case sm_prune (sc_state s1) of (m, pruned) \<Rightarrow>
                       (let cpu = fsub (self_cpu (w_cpu_after w)) (self_cpu (w_cpu_before w))
                        in (s1\<lparr>sc_state := m\<rparr>,
                            Inr (r\<lparr>rs_state_pruned := pruned, rs_state_entries := sm_len m,
                              rs_duration := w_elapsed w,
                              rs_self_cpu := (if cpu < 0 then 0 else cpu)\<rparr>))))))"

end
