(* ===== verification/ScanSteps.thy ===== *)
theory ScanSteps
  imports Scan
begin

text \<open>
  Lemmas on one process of a scan: what a stage may do to the result (the locale \<open>read_stage\<close>,
  of which every stage of \<^const>\<open>read_process\<close> is an instance), how the process is counted, and
  what happens to the state map and to the cached facts.
\<close>

section \<open>The contract of a stage\<close>

text \<open>
  A stage that goes on may only note read errors of its own file, and a stage that stops counts
  the process as vanished.
\<close>

definition noted :: "scan_res \<Rightarrow> scan_res \<Rightarrow> bool" where
  "noted r r' \<longleftrightarrow>
     r' = r\<lparr>rs_read_errs := rs_read_errs r'\<rparr>
     \<and> gmap_count (rs_read_errs r') ''stat'' = gmap_count (rs_read_errs r) ''stat''"

text \<open>The processes a result accounts for.\<close>

definition outcomes :: "scan_res \<Rightarrow> nat" where
  "outcomes r = rs_scanned r + rs_ignored r + rs_vanished r + rs_denied r
     + gmap_count (rs_read_errs r) ''stat''"

lemma noted_refl [simp]: "noted r r"
  by (simp add: noted_def)

lemma noted_trans: "noted r1 r2 \<Longrightarrow> noted r2 r3 \<Longrightarrow> noted r1 r3"
  unfolding noted_def by (cases r1; cases r2; cases r3) simp

lemma noted_read_err [simp]: "k \<noteq> ''stat'' \<Longrightarrow> noted r (read_err k r)"
  by (simp add: noted_def read_err_def gmap_simps)

locale read_stage =
  fixes step :: "scan_res \<Rightarrow> 'a read_step"
  assumes goes_on: "step r = Inr (x, r') \<Longrightarrow> noted r r'"
    and stops: "step r = Inl r' \<Longrightarrow> \<exists>r1. noted r r1 \<and> r' = vanished r1"
begin

lemma go_frame:
  "step r = Inr (x, r') \<Longrightarrow>
    outcomes r' = outcomes r \<and> rs_procs r' = rs_procs r \<and> rs_scanned r' = rs_scanned r
    \<and> rs_total r' = rs_total r \<and> rs_generation r' = rs_generation r"
  using goes_on unfolding noted_def outcomes_def by (cases r; cases r') force

lemma stop_frame:
  "step r = Inl r' \<Longrightarrow>
    outcomes r' = Suc (outcomes r) \<and> rs_procs r' = rs_procs r \<and> rs_scanned r' = rs_scanned r
    \<and> rs_total r' = rs_total r \<and> rs_generation r' = rs_generation r"
proof -
  assume "step r = Inl r'"
  then obtain r1 where "noted r r1" "r' = vanished r1" using stops by blast
  then show ?thesis
    unfolding noted_def outcomes_def vanished_def by (cases r; cases r1) force
qed

end

text \<open>Two stages in sequence are a stage.\<close>

lemma read_stage_then:
  assumes "read_stage a" and "\<And>x. read_stage (b x)"
  shows "read_stage (\<lambda>r. case a r of Inl r1 \<Rightarrow> Inl r1 | Inr (x, r1) \<Rightarrow> b x r1)"
proof
  fix r y r'
  assume "(case a r of Inl r1 \<Rightarrow> Inl r1 | Inr (x, r1) \<Rightarrow> b x r1) = Inr (y, r')"
  then obtain x r1 where "a r = Inr (x, r1)" "b x r1 = Inr (y, r')"
    by (auto split: sum.splits)
  then show "noted r r'"
    using read_stage.goes_on [OF assms(1)] read_stage.goes_on [OF assms(2)] noted_trans by blast
next
  fix r r'
  assume a: "(case a r of Inl r1 \<Rightarrow> Inl r1 | Inr (x, r1) \<Rightarrow> b x r1) = Inl r'"
  show "\<exists>r1. noted r r1 \<and> r' = vanished r1"
  proof (cases "a r")
    case (Inl r1)
    with a show ?thesis using read_stage.stops [OF assms(1)] by simp
  next
    case (Inr xr)
    then obtain x r1 where "a r = Inr (x, r1)" by (cases xr) auto
    with a read_stage.goes_on [OF assms(1) this] read_stage.stops [OF assms(2), of x r1 r']
    show ?thesis using noted_trans by fastforce
  qed
qed

lemma read_stage_go: "read_stage (\<lambda>r. Inr (x, r))"
  by unfold_locales auto

interpretation cmdline: read_stage "cmdline_step env prev pf"
  by unfold_locales (auto simp: cmdline_step_def split: sum.splits if_splits intro: noted_refl)

interpretation status: read_stage "status_step env prev pf users"
  by unfold_locales
     (auto simp: status_step_def Let_def split: sum.splits if_splits prod.splits option.splits
       intro: noted_refl)

interpretation statm: read_stage "statm_step sys pf p"
  by unfold_locales (auto simp: statm_step_def split: sum.splits if_splits intro: noted_refl)

interpretation io: read_stage "io_step env pf p"
  by unfold_locales (auto simp: io_step_def split: sum.splits if_splits intro: noted_refl)

interpretation fd: read_stage "fd_step env prev pf p"
  by unfold_locales
     (auto simp: fd_step_def Let_def split: sum.splits if_splits option.splits intro: noted_refl)

interpretation smaps: read_stage "smaps_step env prev pf p"
  by unfold_locales
     (auto simp: smaps_step_def split: sum.splits if_splits option.splits intro: noted_refl)

interpretation readings: read_stage "readings env prev pf p"
proof -
  have "read_stage (\<lambda>r. readings env prev pf p r)"
    unfolding readings_def
    by (intro read_stage_then statm.read_stage_axioms)
       (auto intro!: read_stage_then io.read_stage_axioms fd.read_stage_axioms
         smaps.read_stage_axioms read_stage_go split: prod.splits)
  then show "read_stage (readings env prev pf p)" .
qed

section \<open>The exits of one process\<close>

definition filter_input_of :: "stat \<Rightarrow> string list \<Rightarrow> bool \<Rightarrow> string \<Rightarrow> filter_input" where
  "filter_input_of st cmdline cmdline_read user =
     \<lparr>fi_comm = st_comm st, fi_cmdline = cmdline, fi_user = user, fi_ppid = st_ppid st,
      fi_is_kernel = (cmdline_read \<and> is_kernel_thread cmdline (st_ppid st))\<rparr>"

definition final_user :: "string \<Rightarrow> u32 \<Rightarrow> string" where
  "final_user user uid = (if user = [] then uid_string uid else user)"

lemma read_process_cases:
  assumes "read_process env pid pf s r = ((s', r'), po)"
  obtains (stat) e where "read_stat (pf_stat pf) = Inl e" "s' = s" "r' = stat_failed e r" "po = None"
  | (no_cmdline) st m prev where "read_stat (pf_stat pf) = Inr st"
      "sm_lookup pid (st_start_ticks st) (sc_state s) = (m, prev)"
      "cmdline_step env prev pf r = Inl r'" "s' = s\<lparr>sc_state := m\<rparr>" "po = None"
  | (no_status) st m prev cmdline cr r1 where "read_stat (pf_stat pf) = Inr st"
      "sm_lookup pid (st_start_ticks st) (sc_state s) = (m, prev)"
      "cmdline_step env prev pf r = Inr ((cmdline, cr), r1)"
      "status_step env prev pf (sc_users s) r1 = Inl r'" "s' = s\<lparr>sc_state := m\<rparr>" "po = None"
  | (ignored) st m prev cmdline cr r1 uid user status users r2 where "read_stat (pf_stat pf) = Inr st"
      "sm_lookup pid (st_start_ticks st) (sc_state s) = (m, prev)"
      "cmdline_step env prev pf r = Inr ((cmdline, cr), r1)"
      "status_step env prev pf (sc_users s) r1 = Inr ((uid, user, status, users), r2)"
      "\<not> fst (keep (se_filter env) (filter_input_of st cmdline cr user))"
      "s' = s\<lparr>sc_state := sm_touch pid m, sc_users := users\<rparr>"
      "r' = r2\<lparr>rs_ignored := rs_ignored r2 + 1\<rparr>" "po = None"
  | (no_reading) st m prev cmdline cr r1 uid user status users r2 where
      "read_stat (pf_stat pf) = Inr st"
      "sm_lookup pid (st_start_ticks st) (sc_state s) = (m, prev)"
      "cmdline_step env prev pf r = Inr ((cmdline, cr), r1)"
      "status_step env prev pf (sc_users s) r1 = Inr ((uid, user, status, users), r2)"
      "fst (keep (se_filter env) (filter_input_of st cmdline cr user))"
      "readings env prev pf (base_process (se_system env) pid st status uid (final_user user uid)
          (name_step env prev pf st cmdline)) r2 = Inl r'"
      "s' = s\<lparr>sc_state := m, sc_users := users\<rparr>" "po = None"
  | (kept) st m prev cmdline cr r1 uid user status users r2 p io where
      "read_stat (pf_stat pf) = Inr st"
      "sm_lookup pid (st_start_ticks st) (sc_state s) = (m, prev)"
      "cmdline_step env prev pf r = Inr ((cmdline, cr), r1)"
      "status_step env prev pf (sc_users s) r1 = Inr ((uid, user, status, users), r2)"
      "fst (keep (se_filter env) (filter_input_of st cmdline cr user))"
      "readings env prev pf (base_process (se_system env) pid st status uid (final_user user uid)
          (name_step env prev pf st cmdline)) r2 = Inr ((p, io), r')"
      "s' = s\<lparr>sc_state := sm_put pid (new_pid_state st status io p) m, sc_users := users\<rparr>"
      "po = Some (fst (finish pid prev (new_pid_state st status io p) p m))"
proof -
  note fold = filter_input_of_def [symmetric] final_user_def [symmetric]
  show thesis
  proof (cases "read_stat (pf_stat pf)")
    case (Inl e)
    with assms show ?thesis by (intro stat) (auto simp: read_process_def)
  next
    case st: (Inr st)
    obtain m prev where lk: "sm_lookup pid (st_start_ticks st) (sc_state s) = (m, prev)"
      by (cases "sm_lookup pid (st_start_ticks st) (sc_state s)")
    show ?thesis
    proof (cases "cmdline_step env prev pf r")
      case (Inl r1)
      with assms st lk show ?thesis by (intro no_cmdline) (auto simp: read_process_def)
    next
      case (Inr x1)
      then obtain cmdline cr r1 where cl: "cmdline_step env prev pf r = Inr ((cmdline, cr), r1)"
        by (cases x1) auto
      show ?thesis
      proof (cases "status_step env prev pf (sc_users s) r1")
        case (Inl r2)
        with assms st lk cl show ?thesis by (intro no_status) (auto simp: read_process_def)
      next
        case (Inr x2)
        then obtain uid user status users r2 where
          ss: "status_step env prev pf (sc_users s) r1 = Inr ((uid, user, status, users), r2)"
          by (cases x2) auto
        let ?base = "base_process (se_system env) pid st status uid (final_user user uid)
          (name_step env prev pf st cmdline)"
        note eqs = assms [unfolded read_process_def st lk cl ss sum.case prod.case fold Let_def]
        show ?thesis
        proof (cases "fst (keep (se_filter env) (filter_input_of st cmdline cr user))")
          case False
          with eqs show ?thesis by (intro ignored [OF st lk cl ss]) auto
        next
          case k: True
          show ?thesis
          proof (cases "readings env prev pf ?base r2")
            case (Inl r3)
            with eqs k show ?thesis by (intro no_reading [OF st lk cl ss k]) auto
          next
            case (Inr x3)
            then obtain p io r3 where rd: "readings env prev pf ?base r2 = Inr ((p, io), r3)"
              by (cases x3) auto
            with eqs k show ?thesis
              by (intro kept [OF st lk cl ss k, of p io])
                 (auto simp: finish_def split: option.splits)
          qed
        qed
      qed
    qed
  qed
qed

section \<open>Counting one process\<close>

lemma stat_failed_frame:
  "outcomes (stat_failed e r) = Suc (outcomes r) \<and> rs_procs (stat_failed e r) = rs_procs r
    \<and> rs_scanned (stat_failed e r) = rs_scanned r \<and> rs_total (stat_failed e r) = rs_total r
    \<and> rs_generation (stat_failed e r) = rs_generation r"
  by (simp add: stat_failed_def vanished_def read_err_def outcomes_def gmap_simps)

text \<open>A process that is not returned is counted once, and one that is returned is not counted yet.\<close>

lemma read_process_frame:
  assumes "read_process env pid pf s r = ((s', r'), po)"
  shows "outcomes r' = (if po = None then Suc (outcomes r) else outcomes r)
    \<and> rs_procs r' = rs_procs r \<and> rs_scanned r' = rs_scanned r \<and> rs_total r' = rs_total r
    \<and> rs_generation r' = rs_generation r"
  using assms
proof (cases rule: read_process_cases)
  case (stat e)
  then show ?thesis using stat_failed_frame [of e r] by simp
next
  case (no_cmdline st m prev)
  then show ?thesis using cmdline.stop_frame by simp
next
  case (no_status st m prev cmdline cr r1)
  then show ?thesis using cmdline.go_frame status.stop_frame by metis
next
  case (ignored st m prev cmdline cr r1 uid user status users r2)
  then show ?thesis
    using cmdline.go_frame [OF ignored(3)] status.go_frame [OF ignored(4)] by (simp add: outcomes_def)
next
  case (no_reading st m prev cmdline cr r1 uid user status users r2)
  then show ?thesis
    using cmdline.go_frame [OF no_reading(3)] status.go_frame [OF no_reading(4)]
      readings.stop_frame [OF no_reading(6)] by simp
next
  case (kept st m prev cmdline cr r1 uid user status users r2 p io)
  then show ?thesis
    using cmdline.go_frame [OF kept(3)] status.go_frame [OF kept(4)]
      readings.go_frame [OF kept(6)] by simp
qed

section \<open>The state map across one process\<close>

lemma read_process_store:
  assumes "read_process env pid pf s r = ((s', r'), po)"
  shows "\<exists>t cur. sc_state s' \<in> {sc_state s, fst (sm_lookup pid t (sc_state s)),
      sm_touch pid (fst (sm_lookup pid t (sc_state s))), sm_put pid cur (fst (sm_lookup pid t (sc_state s)))}"
  using assms
  by (cases rule: read_process_cases) (auto intro!: exI dest!: arg_cong [where f = fst])

text \<open>
  The invariant of the state map during a scan that has visited the processes \<open>ps\<close>: no entry is
  stamped with a later generation, and those stamped with this one are processes of \<open>ps\<close>.
\<close>

definition scan_inv :: "go_int set \<Rightarrow> state_map \<Rightarrow> bool" where
  "scan_inv ps m \<longleftrightarrow>
     sm_wf m \<and> (\<forall>q st. sm_entry m q = Some st \<longrightarrow> ps_generation st \<le> generation m)
     \<and> (\<forall>q st. sm_entry m q = Some st \<longrightarrow> ps_generation st < generation m \<or> q \<in> ps)"

lemma scan_inv_mono: "scan_inv ps m \<Longrightarrow> ps \<subseteq> ps' \<Longrightarrow> scan_inv ps' m"
  unfolding scan_inv_def by blast

lemma scan_inv_lookup: "scan_inv ps m \<Longrightarrow> scan_inv ps (fst (sm_lookup p t m))"
  unfolding scan_inv_def sm.gens using sm.wf_lookup sm.entry_lookup_old by blast

lemma scan_inv_put: "scan_inv ps m \<Longrightarrow> scan_inv (insert p ps) (sm_put p st m)"
  unfolding scan_inv_def sm.gens by (auto simp: sm.entries sm.wfs)

lemma scan_inv_touch: "scan_inv ps m \<Longrightarrow> scan_inv (insert p ps) (sm_touch p m)"
  unfolding scan_inv_def sm.gens by (auto simp: sm.entries sm.wfs)

lemma read_process_inv:
  assumes "read_process env pid pf s r = ((s', r'), po)" and "scan_inv ps (sc_state s)"
  shows "scan_inv (insert pid ps) (sc_state s')" and "generation (sc_state s') = generation (sc_state s)"
proof -
  obtain t cur where "sc_state s' \<in> {sc_state s, fst (sm_lookup pid t (sc_state s)),
      sm_touch pid (fst (sm_lookup pid t (sc_state s))), sm_put pid cur (fst (sm_lookup pid t (sc_state s)))}"
    using read_process_store [OF assms(1)] by blast
  with assms(2) show "scan_inv (insert pid ps) (sc_state s')"
    and "generation (sc_state s') = generation (sc_state s)"
    using scan_inv_mono [OF _ subset_insertI] scan_inv_lookup scan_inv_touch scan_inv_put sm.gens by auto
qed

section \<open>The schedule fields never change\<close>

lemma read_process_scan_no:
  "read_process env pid pf s r = ((s', r'), po) \<Longrightarrow> sc_scan_no s' = sc_scan_no s"
  by (erule read_process_cases) auto

section \<open>What the state remembers\<close>

text \<open>
  The facts of an entry that later scans reuse: its name is a legal label value and its user is
  not empty; and its descriptor figures are those of a process that was counted.
\<close>

definition entry_ok :: "pid_state \<Rightarrow> bool" where
  "entry_ok st \<longleftrightarrow>
     label_value (ps_name st) \<and> ps_user st \<noteq> []
     \<and> (if ps_have_fds st then 0 \<le> ps_open_fds st \<and> 0 \<le> ps_fd_ratio st
        else ps_open_fds st = - 1 \<and> ps_max_fds st = - 1 \<and> ps_fd_ratio st = 0)
     \<and> (\<not> ps_have_pss st \<longrightarrow> ps_pss_bytes st = 0 \<and> ps_swap_pss_bytes st = 0)"

definition process_ok :: "process \<Rightarrow> bool" where
  "process_ok p \<longleftrightarrow>
     label_value (p_name p) \<and> p_user p \<noteq> []
     \<and> (if p_have_fds p then 0 \<le> p_open_fds p \<and> 0 \<le> p_fd_ratio p
        else p_open_fds p = - 1 \<and> p_max_fds p = - 1 \<and> p_fd_ratio p = 0)
     \<and> (\<not> p_have_pss p \<longrightarrow> p_pss_bytes p = 0 \<and> p_swap_pss_bytes p = 0)"

lemma uid_string_not_empty: "uid_string uid \<noteq> []"
  by (simp add: uid_string_def)

lemma final_user_not_empty: "final_user user uid \<noteq> []"
  by (simp add: final_user_def uid_string_not_empty)

lemma name_step_label:
  "(\<And>st. prev = Some st \<Longrightarrow> label_value (ps_name st)) \<Longrightarrow> label_value (name_step env prev pf st cmdline)"
  by (auto simp: name_step_def cached_def Let_def namer_name_def sanitize_label_value
      split: option.splits if_splits)

text \<open>What the readings do to the process: the identity stays, and the gauges are in order.\<close>

definition same_identity :: "process \<Rightarrow> process \<Rightarrow> bool" where
  "same_identity p q \<longleftrightarrow>
     p_pid q = p_pid p \<and> p_ppid q = p_ppid p \<and> p_comm q = p_comm p \<and> p_name q = p_name p
     \<and> p_user q = p_user p \<and> p_uid q = p_uid p \<and> p_state q = p_state p
     \<and> p_start_ticks q = p_start_ticks p \<and> p_start_unix q = p_start_unix p
     \<and> p_have_deltas q = p_have_deltas p \<and> p_have_status q = p_have_status p
     \<and> p_swap_bytes q = p_swap_bytes p \<and> p_threads q = p_threads p"

lemma same_identity_trans: "same_identity p q \<Longrightarrow> same_identity q q' \<Longrightarrow> same_identity p q'"
  by (simp add: same_identity_def)

lemma base_process_ok: "label_value name \<Longrightarrow> user \<noteq> [] \<Longrightarrow> process_ok (base_process sys pid st status uid user name)"
  by (simp add: process_ok_def base_process_def)

lemma statm_step_process:
  "statm_step sys pf p r = Inr (q, r') \<Longrightarrow>
    same_identity p q \<and> (process_ok p \<longrightarrow> process_ok q) \<and> p_have_io q = p_have_io p
    \<and> p_have_fds q = p_have_fds p \<and> p_have_pss q = p_have_pss p
    \<and> p_open_fds q = p_open_fds p \<and> p_max_fds q = p_max_fds p \<and> p_fd_ratio q = p_fd_ratio p
    \<and> p_pss_bytes q = p_pss_bytes p \<and> p_swap_pss_bytes q = p_swap_pss_bytes p"
  by (auto simp: statm_step_def same_identity_def process_ok_def split: sum.splits if_splits)

lemma io_step_process:
  "io_step env pf p r = Inr ((q, io), r') \<Longrightarrow> q = (if io = None then p else p\<lparr>p_have_io := True\<rparr>)"
  unfolding io_step_def by (cases "read_io (pf_io pf)") (auto split: if_split_asm)

lemma io_step_reading:
  "io_step env pf p r = Inr ((q, io), r') \<Longrightarrow>
    io = (if c_read_io (c_scan (se_cfg env))
      then case read_io (pf_io pf) of Inl _ \<Rightarrow> None | Inr i \<Rightarrow> Some i else None)"
  unfolding io_step_def by (simp split: sum.split_asm if_split_asm)

definition prev_ok :: "pid_state option \<Rightarrow> bool" where
  "prev_ok prev \<longleftrightarrow> (\<forall>st. prev = Some st \<longrightarrow> entry_ok st)"

text \<open>The descriptor figures a stage settles on.\<close>

definition with_fds :: "process \<Rightarrow> go_int \<Rightarrow> go_int \<Rightarrow> float64 \<Rightarrow> process" where
  "with_fds p n m ratio =
     p\<lparr>p_open_fds := n, p_max_fds := m, p_fd_ratio := ratio, p_have_fds := True\<rparr>"

lemma with_fds_ratio:
  "p\<lparr>p_open_fds := n, p_have_fds := True, p_max_fds := m\<rparr> = with_fds p n m (p_fd_ratio p)"
  "(with_fds p n m x)\<lparr>p_fd_ratio := ratio\<rparr> = with_fds p n m ratio"
  by (cases p, simp add: with_fds_def)+

lemma fd_step_read:
  "count_fds (pf_fd pf) = Inr fds \<Longrightarrow> se_do_fds env \<Longrightarrow>
    fd_step env prev pf p r =
      (let m = (case max_fds (pf_limits pf) of Inr m \<Rightarrow> m | Inl _ \<Rightarrow> p_max_fds p)
       in Inr (with_fds p (int fds) m
         (if 0 < m then fdiv (float64_of_int (int fds)) (float64_of_int m) else p_fd_ratio p), r))"
  by (simp add: fd_step_def Let_def with_fds_ratio)

lemma fd_step_result:
  assumes "fd_step env prev pf p r = Inr (q, r')"
  shows "q = p \<or> (\<exists>fds m. q = with_fds p (int fds) m
        (if 0 < m then fdiv (float64_of_int (int fds)) (float64_of_int m) else p_fd_ratio p))
    \<or> (\<exists>old. prev = Some old \<and> ps_have_fds old
        \<and> q = with_fds p (ps_open_fds old) (ps_max_fds old) (ps_fd_ratio old))"
proof (cases "se_do_fds env")
  case True
  show ?thesis
  proof (cases "count_fds (pf_fd pf)")
    case (Inl e)
    with True assms have "q = p" unfolding fd_step_def by (simp split: if_split_asm)
    then show ?thesis ..
  next
    case (Inr fds)
    with True assms show ?thesis by (simp only: fd_step_read Let_def sum.inject prod.inject) blast
  qed
next
  case False
  show ?thesis
  proof (cases "\<exists>old. prev = Some old \<and> ps_have_fds old")
    case True
    with \<open>\<not> se_do_fds env\<close> assms show ?thesis
      unfolding fd_step_def with_fds_def by (elim exE conjE) simp
  next
    case f: False
    with False assms have "q = p" unfolding fd_step_def by (cases prev) simp_all
    then show ?thesis ..
  qed
qed

lemma fd_step_process:
  assumes "fd_step env prev pf p r = Inr (q, r')"
  shows "same_identity p q \<and> (process_ok p \<and> \<not> p_have_fds p \<and> prev_ok prev \<longrightarrow> process_ok q)
    \<and> p_have_io q = p_have_io p \<and> p_have_pss q = p_have_pss p
    \<and> p_pss_bytes q = p_pss_bytes p \<and> p_swap_pss_bytes q = p_swap_pss_bytes p"
  using fd_step_result [OF assms]
  by (elim disjE exE conjE)
     (simp_all add: with_fds_def same_identity_def process_ok_def prev_ok_def entry_ok_def
        fdiv_nonneg float64_of_int_nonneg)

lemma smaps_step_result:
  "smaps_step env prev pf p r = Inr (q, r') \<Longrightarrow>
    q = p \<or> (\<exists>pss swap. p\<lparr>p_pss_bytes := pss, p_swap_pss_bytes := swap, p_have_pss := True\<rparr> = q)"
  unfolding smaps_step_def
  by (simp only: sum.inject prod.inject split: sum.split_asm if_split_asm option.split_asm) blast+

lemma smaps_step_process:
  assumes "smaps_step env prev pf p r = Inr (q, r')"
  shows "same_identity p q \<and> (process_ok p \<longrightarrow> process_ok q)
    \<and> p_have_io q = p_have_io p \<and> p_have_fds q = p_have_fds p
    \<and> p_open_fds q = p_open_fds p \<and> p_max_fds q = p_max_fds p \<and> p_fd_ratio q = p_fd_ratio p"
  using smaps_step_result [OF assms]
  by (elim disjE exE; hypsubst?) (simp_all add: same_identity_def process_ok_def)

lemma readings_cases:
  assumes "readings env prev pf p r = Inr ((q, io), r')"
  obtains p1 r1 p2 r2 p3 r3 where "statm_step (se_system env) pf p r = Inr (p1, r1)"
    "io_step env pf p1 r1 = Inr ((p2, io), r2)" "fd_step env prev pf p2 r2 = Inr (p3, r3)"
    "smaps_step env prev pf p3 r3 = Inr (q, r')"
proof (cases "statm_step (se_system env) pf p r")
  case (Inr x1)
  then obtain p1 r1 where 1: "statm_step (se_system env) pf p r = Inr (p1, r1)" by (cases x1) simp
  show thesis
  proof (cases "io_step env pf p1 r1")
    case (Inr x2)
    then obtain p2 io2 r2 where 2: "io_step env pf p1 r1 = Inr ((p2, io2), r2)"
      by (metis prod.exhaust_sel)
    show thesis
    proof (cases "fd_step env prev pf p2 r2")
      case (Inr x3)
      then obtain p3 r3 where 3: "fd_step env prev pf p2 r2 = Inr (p3, r3)" by (cases x3) simp
      show thesis
      proof (cases "smaps_step env prev pf p3 r3")
        case (Inr x4)
        then obtain p4 r4 where 4: "smaps_step env prev pf p3 r3 = Inr (p4, r4)" by (cases x4) simp
        show thesis using assms 1 2 3 4 by (intro that [OF 1, of p2 r2 p3 r3]) (simp_all add: readings_def)
      qed (use assms 1 2 3 in \<open>simp add: readings_def\<close>)
    qed (use assms 1 2 in \<open>simp add: readings_def\<close>)
  qed (use assms 1 in \<open>simp add: readings_def\<close>)
qed (use assms in \<open>simp add: readings_def\<close>)

lemma readings_process:
  assumes "readings env prev pf p r = Inr ((q, io), r')" and "\<not> p_have_fds p" and "\<not> p_have_pss p"
    and "\<not> p_have_io p" and "prev_ok prev" and "process_ok p"
  shows "same_identity p q \<and> process_ok q \<and> (p_have_io q \<longleftrightarrow> io \<noteq> None)"
  using assms(1)
proof (cases rule: readings_cases)
  case (1 p1 r1 p2 r2 p3 r3)
  note s1 = statm_step_process [OF 1(1)] and s3 = fd_step_process [OF 1(3)]
    and s4 = smaps_step_process [OF 1(4)]
  have s2: "same_identity p1 p2 \<and> process_ok p2 = process_ok p1 \<and> p_have_fds p2 = p_have_fds p1
      \<and> p_have_pss p2 = p_have_pss p1 \<and> (p_have_io p2 \<longleftrightarrow> p_have_io p1 \<or> io \<noteq> None)"
    using io_step_process [OF 1(2)] by (cases io) (simp_all add: same_identity_def process_ok_def)
  from s1 s2 s3 s4 have id: "same_identity p q" by (blast intro: same_identity_trans)
  from s1 s2 assms have "process_ok p2" "\<not> p_have_fds p2" by simp_all
  with s3 assms(5) have "process_ok p3" by simp
  with s4 have "process_ok q" by simp
  moreover from s1 s2 s3 s4 assms(4) have "p_have_io q \<longleftrightarrow> io \<noteq> None" by simp
  ultimately show ?thesis using id by simp
qed

text \<open>The entry that is stored for a process mirrors it.\<close>

lemma new_pid_state_ok: "process_ok p \<Longrightarrow> entry_ok (new_pid_state st status io p)"
  by (simp add: process_ok_def entry_ok_def new_pid_state_def)

definition all_ok :: "state_map \<Rightarrow> bool" where
  "all_ok m \<longleftrightarrow> (\<forall>q st. sm_entry m q = Some st \<longrightarrow> entry_ok st)"

lemma entry_ok_generation [simp]: "entry_ok (st\<lparr>ps_generation := g\<rparr>) = entry_ok st"
  by (simp add: entry_ok_def)

lemma all_ok_lookup: "all_ok m \<Longrightarrow> all_ok (fst (sm_lookup p t m)) \<and> prev_ok (snd (sm_lookup p t m))"
  unfolding all_ok_def prev_ok_def using sm.entry_lookup_old sm.lookup_same by blast

lemma all_ok_put: "all_ok m \<Longrightarrow> entry_ok st \<Longrightarrow> all_ok (sm_put p st m)"
  by (simp add: all_ok_def sm.entries)

lemma all_ok_touch: "all_ok m \<Longrightarrow> all_ok (sm_touch p m)"
  by (auto simp: all_ok_def sm.entries)

lemma all_ok_prune: "sm_wf m \<Longrightarrow> all_ok m \<Longrightarrow> all_ok (fst (sm_prune m))"
  by (auto simp: all_ok_def sm.entry_prune split: option.splits if_splits)

lemma process_ok_deltas [simp]:
  "process_ok (compute_deltas p cur old) = process_ok p"
  "process_ok (p\<lparr>p_have_deltas := b\<rparr>) = process_ok p"
  by (simp_all add: compute_deltas_def process_ok_def)

lemma kept_process_ok:
  assumes "readings env prev pf (base_process sys pid st status uid (final_user user uid)
      (name_step env prev pf st cmdline)) r = Inr ((p, io), r')"
    and "prev_ok prev"
  shows "process_ok p"
proof -
  let ?base = "base_process sys pid st status uid (final_user user uid) (name_step env prev pf st cmdline)"
  have "process_ok ?base"
    using assms(2)
    by (intro base_process_ok name_step_label final_user_not_empty) (auto simp: prev_ok_def entry_ok_def)
  moreover have "\<not> p_have_fds ?base" "\<not> p_have_pss ?base" "\<not> p_have_io ?base"
    by (simp_all add: base_process_def)
  ultimately show ?thesis using readings_process [OF assms(1)] assms(2) by blast
qed

lemma read_process_ok:
  assumes "read_process env pid pf s r = ((s', r'), po)" and ok: "all_ok (sc_state s)"
  shows "all_ok (sc_state s') \<and> (\<forall>p. po = Some p \<longrightarrow> process_ok p)"
  using assms(1)
proof (cases rule: read_process_cases)
  case (kept st m prev cmdline cr r1 uid user status users r2 p io)
  have "all_ok m" "prev_ok prev" using all_ok_lookup [OF ok, of pid "st_start_ticks st"] kept(2) by simp_all
  then have "process_ok p" using kept_process_ok [OF kept(6)] by blast
  with \<open>all_ok m\<close> kept show ?thesis
    by (auto simp: all_ok_put new_pid_state_ok finish_def split: option.splits)
qed (use ok all_ok_lookup [OF ok] all_ok_touch in \<open>auto dest!: arg_cong [where f = fst]\<close>)

end
