(* ===== verification/ScanProps.thy ===== *)
theory ScanProps
  imports ScanSteps
begin

text \<open>
  Properties of whole scans: the invariant of the scanner, the accounting of a result, the bound
  on the state, the batching, and the schedules of the expensive reads.
\<close>

section \<open>The invariant of the scanner\<close>

definition scanner_inv :: "scanner \<Rightarrow> bool" where
  "scanner_inv s \<longleftrightarrow>
     sm_wf (sc_state s)
     \<and> (\<forall>q st. sm_entry (sc_state s) q = Some st \<longrightarrow> ps_generation st \<le> generation (sc_state s))
     \<and> all_ok (sc_state s) \<and> gmap_wf (sc_users s)"

lemma scanner_new_inv: "gmap_wf users \<Longrightarrow> scanner_inv (scanner_new users)"
  by (simp add: scanner_inv_def scanner_new_def new_state_map_def sm_wf_def sm_entry_def all_ok_def)

lemma reset_state_inv: "scanner_inv s \<Longrightarrow> scanner_inv (reset_state s)"
  by (simp add: scanner_inv_def reset_state_def new_state_map_def sm_wf_def sm_entry_def all_ok_def)

lemma status_step_users:
  "status_step env prev pf users r = Inr ((uid, user, status, users'), r') \<Longrightarrow>
    users' = users \<or> (\<exists>u. users' = snd (user_name (se_lookup_id env) u users))"
  unfolding status_step_def Let_def
  by (auto split: sum.split_asm if_split_asm prod.split_asm option.split_asm) (metis snd_conv)+

lemma status_step_wf:
  assumes "status_step env prev pf users r = Inr ((uid, user, status, users'), r')" and "gmap_wf users"
  shows "gmap_wf users'"
  using status_step_users [OF assms(1)] assms(2) by (auto simp: user_name_wf)

lemma read_process_users:
  assumes "read_process env pid pf s r = ((s', r'), po)" and "gmap_wf (sc_users s)"
  shows "gmap_wf (sc_users s')"
  using assms(1)
proof (cases rule: read_process_cases)
  case (ignored st m prev cmdline cr r1 uid user status users r2)
  then show ?thesis using status_step_wf assms(2) by simp
next
  case (no_reading st m prev cmdline cr r1 uid user status users r2)
  then show ?thesis using status_step_wf assms(2) by simp
next
  case (kept st m prev cmdline cr r1 uid user status users r2 p io)
  then show ?thesis using status_step_wf assms(2) by simp
qed (use assms(2) in simp_all)

section \<open>A run over a list of processes\<close>

lemma read_batch_append:
  "read_batch env files (xs @ ys) sr = read_batch env files ys (read_batch env files xs sr)"
proof (induction xs arbitrary: sr)
  case (Cons x xs)
  obtain s r where sr: "sr = (s, r)" by (cases sr)
  obtain s' r' po where "read_process env x (files x) s r = ((s', r'), po)"
    by (metis prod.exhaust_sel)
  with sr show ?case by (cases po) (simp_all add: Cons.IH)
qed simp

lemma read_batch_frame:
  "read_batch env files pids (s, r) = (s', r') \<Longrightarrow>
    outcomes r' = outcomes r + length pids \<and> rs_total r' = rs_total r
    \<and> rs_generation r' = rs_generation r \<and> sc_scan_no s' = sc_scan_no s
    \<and> (rs_scanned r = length (rs_procs r) \<longrightarrow> rs_scanned r' = length (rs_procs r'))"
proof (induction pids arbitrary: s r)
  case (Cons pid pids)
  obtain s1 r1 po where rp: "read_process env pid (files pid) s r = ((s1, r1), po)"
    by (metis prod.exhaust_sel)
  note f = read_process_frame [OF rp] read_process_scan_no [OF rp]
  show ?case
  proof (cases po)
    case None
    with Cons.prems rp have "read_batch env files pids (s1, r1) = (s', r')" by simp
    from Cons.IH [OF this] f None show ?thesis by simp
  next
    case (Some p)
    with Cons.prems rp have "read_batch env files pids
      (s1, r1\<lparr>rs_procs := rs_procs r1 @ [p], rs_scanned := rs_scanned r1 + 1\<rparr>) = (s', r')" by simp
    from Cons.IH [OF this] f Some show ?thesis by (simp add: outcomes_def)
  qed
qed simp

lemma read_batch_inv:
  "read_batch env files pids (s, r) = (s', r') \<Longrightarrow> scan_inv ps (sc_state s) \<Longrightarrow> all_ok (sc_state s) \<Longrightarrow>
    gmap_wf (sc_users s) \<Longrightarrow> \<forall>p \<in> set (rs_procs r). process_ok p \<Longrightarrow>
    scan_inv (ps \<union> set pids) (sc_state s') \<and> generation (sc_state s') = generation (sc_state s)
    \<and> all_ok (sc_state s') \<and> gmap_wf (sc_users s') \<and> (\<forall>p \<in> set (rs_procs r'). process_ok p)"
proof (induction pids arbitrary: s r ps)
  case (Cons pid pids)
  obtain s1 r1 po where rp: "read_process env pid (files pid) s r = ((s1, r1), po)"
    by (metis prod.exhaust_sel)
  note i = read_process_inv [OF rp Cons.prems(2)] read_process_ok [OF rp Cons.prems(3)]
    read_process_users [OF rp Cons.prems(4)] read_process_frame [OF rp]
  obtain r2 where rb: "read_batch env files pids (s1, r2) = (s', r')"
    and "\<forall>p \<in> set (rs_procs r2). process_ok p"
  proof (cases po)
    case None
    with Cons.prems rp i that show ?thesis by simp
  next
    case (Some p)
    with Cons.prems(1,5) rp i
      that [of "r1\<lparr>rs_procs := rs_procs r1 @ [p], rs_scanned := rs_scanned r1 + 1\<rparr>"]
    show ?thesis by auto
  qed
  with Cons.IH [OF rb i(1)] i show ?case by simp
qed simp

section \<open>The loop over the batches\<close>

lemma scan_batches_Nil: "scan_batches env w k [] (s, r) = (s, Inr r)"
  by (simp add: scan_batches.simps)

lemma scan_batches_ctx:
  "pids \<noteq> [] \<Longrightarrow> w_ctx w k = Some e \<Longrightarrow> scan_batches env w k pids (s, r) = (s, Inl e)"
  by (simp add: scan_batches.simps)

lemma scan_batches_step:
  assumes "pids \<noteq> []" and "w_ctx w k = None"
    and "read_batch env (w_files w) (take (batch_size (se_cfg env)) pids) (s, r) = (s1, r1)"
  shows "scan_batches env w k pids (s, r) =
    (case if drop (batch_size (se_cfg env)) pids \<noteq> [] \<and> 0 < c_batch_sleep (c_scan (se_cfg env))
        then w_sleep w k else None of
       Some e \<Rightarrow> (s1, Inl e)
     | None \<Rightarrow> scan_batches env w (k + 1) (drop (batch_size (se_cfg env)) pids) (s1, r1))"
  using assms unfolding scan_batches.simps [of env w k pids]
  by (cases "w_sleep w k") (simp_all add: Let_def)

lemma scan_batches_run:
  "scan_batches env w k pids (s, r) = (s', x) \<Longrightarrow>
    \<exists>n r'. read_batch env (w_files w) (take n pids) (s, r) = (s', r')
      \<and> (\<forall>r''. x = Inr r'' \<longrightarrow> r'' = r' \<and> length pids \<le> n)"
proof (induction "length pids" arbitrary: k pids s r rule: less_induct)
  case less
  let ?b = "batch_size (se_cfg env)"
  consider "pids = []" | e where "pids \<noteq> []" "w_ctx w k = Some e" | "pids \<noteq> []" "w_ctx w k = None"
    by fastforce
  then show ?case
  proof cases
    case 1
    with less.prems show ?thesis by (intro exI [of _ 0] exI [of _ r]) (auto simp: scan_batches_Nil)
  next
    case 2
    with less.prems show ?thesis by (intro exI [of _ 0] exI [of _ r]) (auto simp: scan_batches_ctx)
  next
    case 3
    obtain s1 r1 where rb: "read_batch env (w_files w) (take ?b pids) (s, r) = (s1, r1)"
      by (cases "read_batch env (w_files w) (take ?b pids) (s, r)")
    note step = less.prems [unfolded scan_batches_step [OF 3 rb]]
    show ?thesis
    proof (cases "if drop ?b pids \<noteq> [] \<and> 0 < c_batch_sleep (c_scan (se_cfg env)) then w_sleep w k else None")
      case (Some e)
      with step have "s' = s1" "x = Inl e" by simp_all
      with rb show ?thesis by (intro exI [of _ ?b] exI [of _ r1]) simp
    next
      case None
      with step have run: "scan_batches env w (k + 1) (drop ?b pids) (s1, r1) = (s', x)" by simp
      have "length (drop ?b pids) < length pids" using 3(1) batch_size_pos [of "se_cfg env"] by simp
      from less.hyps [OF this run] obtain n r' where
        rest: "read_batch env (w_files w) (take n (drop ?b pids)) (s1, r1) = (s', r')"
        and all: "\<forall>r''. x = Inr r'' \<longrightarrow> r'' = r' \<and> length (drop ?b pids) \<le> n" by blast
      have "read_batch env (w_files w) (take (?b + n) pids) (s, r) = (s', r')"
        unfolding take_add read_batch_append rb by (rule rest)
      moreover have "\<forall>r''. x = Inr r'' \<longrightarrow> r'' = r' \<and> length pids \<le> ?b + n"
        using all unfolding length_drop le_diff_conv by (metis add.commute)
      ultimately show ?thesis by blast
    qed
  qed
qed

lemma scan_batches_complete:
  assumes "\<forall>k. w_ctx w k = None" and "\<forall>k. w_sleep w k = None"
  shows "scan_batches env w k pids (s, r) =
    (case read_batch env (w_files w) pids (s, r) of (s', r') \<Rightarrow> (s', Inr r'))"
proof (induction "length pids" arbitrary: k pids s r rule: less_induct)
  case less
  let ?b = "batch_size (se_cfg env)"
  show ?case
  proof (cases "pids = []")
    case False
    obtain s1 r1 where rb: "read_batch env (w_files w) (take ?b pids) (s, r) = (s1, r1)"
      by (cases "read_batch env (w_files w) (take ?b pids) (s, r)")
    have "scan_batches env w k pids (s, r) = scan_batches env w (k + 1) (drop ?b pids) (s1, r1)"
      using scan_batches_step [OF False _ rb, of k] assms by simp
    also have "\<dots> = (case read_batch env (w_files w) (drop ?b pids) (s1, r1) of (s', r') \<Rightarrow> (s', Inr r'))"
      using False batch_size_pos [of "se_cfg env"] by (intro less.hyps) simp
    finally show ?thesis
      using read_batch_append [of env "w_files w" "take ?b pids" "drop ?b pids"] rb by simp
  qed (simp add: scan_batches_Nil)
qed

section \<open>One scan\<close>

definition begin_scan :: "scanner \<Rightarrow> scanner" where
  "begin_scan s = s\<lparr>sc_state := next_generation (sc_state s), sc_scan_no := sc_scan_no s + 1\<rparr>"

definition env_of ::
  "system \<Rightarrow> (string \<Rightarrow> string option) \<Rightarrow> config \<Rightarrow> proc_filter \<Rightarrow> namer \<Rightarrow> scanner \<Rightarrow> scan_env" where
  "env_of sys lookup_id cfg f n s =
     \<lparr>se_cfg = cfg, se_filter = f, se_namer = n, se_system = sys, se_lookup_id = lookup_id,
      se_do_fds = should_scan_fds cfg (sc_scan_no s + 1),
      se_do_smaps = should_scan_smaps cfg (sc_scan_no s + 1)\<rparr>"

definition end_scan :: "scan_world \<Rightarrow> scanner \<Rightarrow> scan_res \<Rightarrow> scanner \<times> scan_res" where
  "end_scan w s r =
     (let (m, pruned) = sm_prune (sc_state s);
          cpu = fsub (self_cpu (w_cpu_after w)) (self_cpu (w_cpu_before w))
      in (s\<lparr>sc_state := m\<rparr>,
          r\<lparr>rs_state_pruned := pruned, rs_state_entries := sm_len m, rs_duration := w_elapsed w,
            rs_self_cpu := (if cpu < 0 then 0 else cpu)\<rparr>))"

definition first_result :: "scan_world \<Rightarrow> scanner \<Rightarrow> nat \<Rightarrow> scan_res" where
  "first_result w s = empty_result (w_start w) (generation (sc_state (begin_scan s)))"

lemma scan_eq:
  "scan sys lookup_id cfg f n w s =
    (case list_pids (w_proc w) of
       Inl e \<Rightarrow> (begin_scan s, Inl e)
     | Inr pids \<Rightarrow>
         (case scan_batches (env_of sys lookup_id cfg f n s) w 0 pids
            (begin_scan s, first_result w s (length pids)) of
            (s1, Inl e) \<Rightarrow> (s1, Inl e)
          | (s1, Inr r) \<Rightarrow> (case end_scan w s1 r of (s', r') \<Rightarrow> (s', Inr r'))))"
  by (auto simp: scan_def Let_def begin_scan_def env_of_def end_scan_def first_result_def
      split: sum.split prod.split)

text \<open>Every scan is a run over a prefix of the listing, and over all of it when it completes.\<close>

lemma scan_cases:
  assumes "scan sys lookup_id cfg f n w s = (s', x)"
  obtains (unlisted) e where "list_pids (w_proc w) = Inl e" "s' = begin_scan s" "x = Inl e"
  | (cancelled) pids k r1 e where "list_pids (w_proc w) = Inr pids"
      "read_batch (env_of sys lookup_id cfg f n s) (w_files w) (take k pids)
         (begin_scan s, first_result w s (length pids)) = (s', r1)" "x = Inl e"
  | (completed) pids s1 r1 where "list_pids (w_proc w) = Inr pids"
      "read_batch (env_of sys lookup_id cfg f n s) (w_files w) pids
         (begin_scan s, first_result w s (length pids)) = (s1, r1)"
      "s' = fst (end_scan w s1 r1)" "x = Inr (snd (end_scan w s1 r1))"
proof (cases "list_pids (w_proc w)")
  case (Inl e)
  with assms show thesis by (intro unlisted) (auto simp: scan_eq)
next
  case (Inr pids)
  let ?env = "env_of sys lookup_id cfg f n s" and ?r0 = "first_result w s (length pids)"
  obtain s1 y where sb: "scan_batches ?env w 0 pids (begin_scan s, ?r0) = (s1, y)"
    by (cases "scan_batches ?env w 0 pids (begin_scan s, ?r0)")
  obtain k r1 where rb: "read_batch ?env (w_files w) (take k pids) (begin_scan s, ?r0) = (s1, r1)"
    and all: "\<forall>r''. y = Inr r'' \<longrightarrow> r'' = r1 \<and> length pids \<le> k"
    using scan_batches_run [OF sb] by blast
  show thesis
  proof (cases y)
    case (Inl e)
    with assms Inr sb rb show thesis by (intro cancelled [of pids k r1 e]) (auto simp: scan_eq)
  next
    case y: (Inr r2)
    with all have "r2 = r1" "take k pids = pids" by simp_all
    with assms Inr sb rb y show thesis
      by (intro completed [of pids s1 r1]) (auto simp: scan_eq split: prod.splits)
  qed
qed

lemma scan_outcomes:
  assumes "scan sys lookup_id cfg f n w s = (s', Inr r)"
  shows "rs_total r = rs_scanned r + rs_ignored r + rs_vanished r + rs_denied r
      + gmap_count (rs_read_errs r) ''stat''
    \<and> rs_scanned r = length (rs_procs r)
    \<and> (\<exists>pids. list_pids (w_proc w) = Inr pids \<and> rs_total r = length pids)"
  using assms
proof (cases rule: scan_cases)
  case (completed pids s1 r1)
  from read_batch_frame [OF completed(2)] completed(1,4) show ?thesis
    by (simp add: end_scan_def Let_def outcomes_def first_result_def empty_result_def split: prod.splits)
qed simp_all

text \<open>
  C3. Accounting: a scan that completes counts every listed process exactly once, as scanned,
  ignored, vanished, denied or unreadable, and the scanned ones are those it returns.
\<close>

theorem scan_accounting:
  assumes "scan sys lookup_id cfg f n w s = (s', Inr r)"
  shows "rs_total r = rs_scanned r + rs_ignored r + rs_vanished r + rs_denied r
      + gmap_count (rs_read_errs r) ''stat''
    \<and> rs_scanned r = length (rs_procs r)
    \<and> (\<exists>pids. list_pids (w_proc w) = Inr pids \<and> rs_total r = length pids)"
  using assms by (rule scan_outcomes)

lemma scan_inv_begin:
  assumes "scanner_inv s" and "unat (generation (sc_state s)) + 1 < 2 ^ 64"
  shows "scan_inv {} (sc_state (begin_scan s)) \<and> all_ok (sc_state (begin_scan s))
    \<and> gmap_wf (sc_users (begin_scan s))"
proof -
  have "\<forall>q st. sm_entry (next_generation (sc_state s)) q = Some st \<longrightarrow>
      ps_generation st < generation (next_generation (sc_state s))"
    using assms by (intro sm.seen_advance) (simp_all add: scanner_inv_def)
  then show ?thesis
    using assms(1) by (auto simp: scanner_inv_def scan_inv_def begin_scan_def all_ok_def
        sm.wfs sm.entries less_imp_le)
qed

lemma scanner_inv_of_run: "scan_inv ps (sc_state s) \<Longrightarrow> all_ok (sc_state s) \<Longrightarrow> gmap_wf (sc_users s) \<Longrightarrow> scanner_inv s"
  by (simp add: scan_inv_def scanner_inv_def)

lemma end_scan_inv:
  assumes "scanner_inv s"
  shows "scanner_inv (fst (end_scan w s r))"
proof -
  have wf: "sm_wf (sc_state s)"
    and le: "\<forall>q st. sm_entry (sc_state s) q = Some st \<longrightarrow> ps_generation st \<le> generation (sc_state s)"
    and ok: "all_ok (sc_state s)" "gmap_wf (sc_users s)"
    using assms by (simp_all add: scanner_inv_def)
  have "\<forall>q st. sm_entry (fst (sm_prune (sc_state s))) q = Some st \<longrightarrow>
      ps_generation st = generation (fst (sm_prune (sc_state s)))"
    using sm.stamps_prune [OF wf le] by (simp add: sm.gens)
  then show ?thesis
    using sm.wf_prune [OF wf] all_ok_prune [OF wf ok(1)] ok(2)
    by (simp add: scanner_inv_def end_scan_def Let_def case_prod_unfold)
qed

lemma scan_keeps_inv:
  assumes "scanner_inv s" and "unat (generation (sc_state s)) + 1 < 2 ^ 64"
    and "scan sys lookup_id cfg f n w s = (s', x)"
  shows "scanner_inv s' \<and> (\<forall>r. x = Inr r \<longrightarrow> (\<forall>p \<in> set (rs_procs r). process_ok p))"
proof -
  note b = scan_inv_begin [OF assms(1,2)]
  have r0: "\<forall>p \<in> set (rs_procs (first_result w s k)). process_ok p" for k
    by (simp add: first_result_def empty_result_def)
  from assms(3) show ?thesis
  proof (cases rule: scan_cases)
    case (unlisted e)
    then show ?thesis using b scanner_inv_of_run by blast
  next
    case (cancelled pids k r1 e)
    then show ?thesis
      using read_batch_inv [OF cancelled(2), of "{}"] b r0 scanner_inv_of_run by blast
  next
    case (completed pids s1 r1)
    have "scanner_inv s1 \<and> (\<forall>p \<in> set (rs_procs r1). process_ok p)"
      using read_batch_inv [OF completed(2), of "{}"] b r0 scanner_inv_of_run by blast
    with completed(3,4) end_scan_inv [of s1] show ?thesis
      by (auto simp: end_scan_def Let_def case_prod_unfold)
  qed
qed

text \<open>
  C5. The invariant of the scanner survives every scan, the failed and the cancelled ones
  included: the state map is a map, no entry is stamped in the future, and what it remembers of
  a process is fit for reuse. Every process a scan returns has a legal label value for a group
  name and a user, and unread descriptor and memory figures are marked and hold their neutral
  values.
\<close>

theorem scan_invariant:
  assumes "scanner_inv s" and "unat (generation (sc_state s)) + 1 < 2 ^ 64"
    and "scan sys lookup_id cfg f n w s = (s', x)"
  shows "scanner_inv s' \<and> (\<forall>r. x = Inr r \<longrightarrow> (\<forall>p \<in> set (rs_procs r). process_ok p))"
  using assms by (rule scan_keeps_inv)

text \<open>
  C4. The state is bounded by the process list: after a scan that completes, an entry belongs to
  a process the scan listed, carries the generation of the scan, and there are no more entries
  than listed processes.
\<close>

theorem scan_state_bounded:
  assumes "scanner_inv s" and "unat (generation (sc_state s)) + 1 < 2 ^ 64"
    and "scan sys lookup_id cfg f n w s = (s', Inr r)" and "list_pids (w_proc w) = Inr pids"
  shows "(\<forall>q st. sm_entry (sc_state s') q = Some st \<longrightarrow> q \<in> set pids \<and> ps_generation st = rs_generation r)
    \<and> rs_state_entries r = sm_len (sc_state s') \<and> rs_state_entries r \<le> rs_total r
    \<and> rs_generation r = generation (sc_state s) + 1"
  using assms(3)
proof (cases rule: scan_cases)
  case (completed pids' s1 r1)
  let ?m = "sc_state s1" and ?m' = "fst (sm_prune (sc_state s1))"
  have [simp]: "pids' = pids" using completed(1) assms(4) by simp
  have b: "scan_inv {} (sc_state (begin_scan s))" "all_ok (sc_state (begin_scan s))"
    "gmap_wf (sc_users (begin_scan s))" using scan_inv_begin [OF assms(1,2)] by simp_all
  have inv: "scan_inv (set pids) ?m" "generation ?m = generation (sc_state s) + 1"
    using read_batch_inv [OF completed(2) b] by (simp_all add: first_result_def empty_result_def begin_scan_def sm.gens)
  then have wf: "sm_wf ?m" by (simp add: scan_inv_def)
  have mem: "q \<in> set pids" if "sm_entry ?m' q \<noteq> None" for q
    using sm.prune_seen [OF wf _ that] inv(1) by (simp add: scan_inv_def)
  have gen: "ps_generation st = generation ?m" if "sm_entry ?m' q = Some st" for q st
    using sm.stamps_prune [OF wf] inv(1) that by (simp add: scan_inv_def sm.gens)
  have "sm_len ?m' \<le> length pids"
    using sm.size_bounded [OF sm.wf_prune [OF wf]] mem by blast
  moreover have "rs_generation r = generation ?m" "rs_total r = length pids"
    using read_batch_frame [OF completed(2)] completed(4) inv(2)
    by (simp_all add: first_result_def empty_result_def begin_scan_def end_scan_def Let_def case_prod_unfold sm.gens)
  moreover have "sc_state s' = ?m'" "rs_state_entries r = sm_len ?m'"
    using completed(3,4) by (simp_all add: end_scan_def Let_def case_prod_unfold)
  ultimately show ?thesis using mem gen inv(2) by auto
qed simp_all

section \<open>Batches and sleeps\<close>

definition with_batches :: "config \<Rightarrow> go_int \<Rightarrow> duration \<Rightarrow> config" where
  "with_batches cfg b t =
     cfg\<lparr>c_scan := (c_scan cfg)\<lparr>c_batch_size := b, c_batch_sleep := t\<rparr>\<rparr>"

lemma with_batches_simps [simp]:
  "c_read_status (c_scan (with_batches cfg b t)) = c_read_status (c_scan cfg)"
  "c_cache_cmdline (c_scan (with_batches cfg b t)) = c_cache_cmdline (c_scan cfg)"
  "c_read_io (c_scan (with_batches cfg b t)) = c_read_io (c_scan cfg)"
  "c_read_smaps (c_scan (with_batches cfg b t)) = c_read_smaps (c_scan cfg)"
  "c_fd_scan_every (c_scan (with_batches cfg b t)) = c_fd_scan_every (c_scan cfg)"
  "c_smaps_scan_every (c_scan (with_batches cfg b t)) = c_smaps_scan_every (c_scan cfg)"
  "c_naming (with_batches cfg b t) = c_naming cfg"
  by (simp_all add: with_batches_def)

lemma env_with_batches:
  "env_of sys lookup_id (with_batches cfg b t) f n s =
    (env_of sys lookup_id cfg f n s)\<lparr>se_cfg := with_batches cfg b t\<rparr>"
  by (simp add: env_of_def should_scan_fds_def should_scan_smaps_def)

lemma read_process_with_batches:
  "read_process (env\<lparr>se_cfg := with_batches (se_cfg env) b t\<rparr>) pid pf s r = read_process env pid pf s r"
proof -
  let ?env = "env\<lparr>se_cfg := with_batches (se_cfg env) b t\<rparr>"
  have sel: "se_cfg ?env = with_batches (se_cfg env) b t" "se_filter ?env = se_filter env"
    "se_namer ?env = se_namer env" "se_system ?env = se_system env"
    "se_lookup_id ?env = se_lookup_id env" "se_do_fds ?env = se_do_fds env"
    "se_do_smaps ?env = se_do_smaps env" by simp_all
  have c: "cached ?env prev get = cached env prev get" for prev get
    unfolding cached_def sel with_batches_simps ..
  show ?thesis
    unfolding read_process_def readings_def cmdline_step_def status_step_def name_step_def
      io_step_def fd_step_def smaps_step_def c sel with_batches_simps ..
qed

lemma read_batch_with_batches:
  "read_batch (env\<lparr>se_cfg := with_batches (se_cfg env) b t\<rparr>) files pids sr = read_batch env files pids sr"
proof (induction pids arbitrary: sr)
  case (Cons pid pids)
  then show ?case
    by (cases sr) (simp add: read_process_with_batches split: prod.split option.split)
qed simp

lemma scan_complete:
  assumes "\<forall>k. w_ctx w k = None" and "\<forall>k. w_sleep w k = None" and "list_pids (w_proc w) = Inr pids"
  shows "scan sys lookup_id cfg f n w s =
    (case read_batch (env_of sys lookup_id cfg f n s) (w_files w) pids
        (begin_scan s, first_result w s (length pids)) of
       (s1, r1) \<Rightarrow> (fst (end_scan w s1 r1), Inr (snd (end_scan w s1 r1))))"
  using assms(3) by (simp add: scan_eq scan_batches_complete [OF assms(1,2)] case_prod_unfold)

text \<open>
  C27. Batching is transparent: as long as the context is not cancelled, a scan of a readable
  process list completes, and its result and the state it leaves do not depend on the batch size
  and on the sleep between batches, however small, large or negative they are.
\<close>

theorem batching_transparent:
  assumes "\<forall>k. w_ctx w k = None" and "\<forall>k. w_sleep w k = None" and "list_pids (w_proc w) = Inr pids"
  shows "scan sys lookup_id (with_batches cfg b t) f n w s = scan sys lookup_id cfg f n w s
    \<and> (\<exists>s' r. scan sys lookup_id cfg f n w s = (s', Inr r))"
proof -
  let ?env = "env_of sys lookup_id cfg f n s"
  have "read_batch (env_of sys lookup_id (with_batches cfg b t) f n s) files ps sr =
      read_batch ?env files ps sr" for files ps sr
    using read_batch_with_batches [of ?env b t files ps sr] by (simp add: env_with_batches) (simp add: env_of_def)
  then show ?thesis
    by (simp add: scan_complete [OF assms] case_prod_unfold)
qed

section \<open>The schedules\<close>

lemma u64_mod_eq:
  fixes n e :: u64
  shows "n mod e = c \<longleftrightarrow> unat n mod unat e = unat c"
  by (metis unat_mod word_unat_eq_iff)

lemma unat_every: "1 < e \<Longrightarrow> e < 2 ^ 63 \<Longrightarrow> unat (word_of_int e :: u64) = nat e"
  by (simp add: unat_eq_nat_uint uint_word_of_int take_bit_eq_mod)

lemma should_scan_fds_iff:
  assumes "1 < c_fd_scan_every (c_scan cfg)" and "c_fd_scan_every (c_scan cfg) < 2 ^ 63"
  shows "should_scan_fds cfg n \<longleftrightarrow> unat n mod nat (c_fd_scan_every (c_scan cfg)) = 1 \<or> n = 1"
  using assms by (simp add: should_scan_fds_def Let_def u64_mod_eq unat_every)

lemma should_scan_smaps_iff:
  assumes "1 < c_smaps_scan_every (c_scan cfg)" and "c_smaps_scan_every (c_scan cfg) < 2 ^ 63"
    and "c_read_smaps (c_scan cfg)"
  shows "should_scan_smaps cfg n \<longleftrightarrow>
    unat n mod nat (c_smaps_scan_every (c_scan cfg)) = nat (c_smaps_scan_every (c_scan cfg)) div 2 \<or> n = 1"
proof -
  have "unat (word_of_int (c_smaps_scan_every (c_scan cfg) div 2) :: u64) = nat (c_smaps_scan_every (c_scan cfg)) div 2"
    using assms(1,2) by (simp add: unat_eq_nat_uint uint_word_of_int take_bit_eq_mod nat_div_distrib)
  then show ?thesis
    using assms by (simp add: should_scan_smaps_def Let_def u64_mod_eq unat_every)
qed

lemma residue_injective:
  fixes k e i j :: nat
  assumes "i \<le> j" and "j < e" and "(k + i) mod e = (k + j) mod e"
  shows "i = j"
proof -
  have "e dvd (k + j) - (k + i)" using assms(1,3) by (metis mod_eq_dvd_iff_nat add_le_mono le_refl)
  then have "e dvd j - i" by simp
  with assms(1,2) show ?thesis by (auto dest: dvd_imp_le)
qed

lemma residue_in_window:
  fixes k e c :: nat
  assumes "c < e"
  shows "\<exists>!i. i < e \<and> (k + i) mod e = c"
proof (rule ex_ex1I)
  have "(k + (c + e - k mod e) mod e) mod e = (k mod e + (c + e - k mod e)) mod e"
    by (metis mod_add_left_eq mod_add_right_eq)
  also have "k mod e + (c + e - k mod e) = c + e"
    using assms mod_less_divisor [of e k] by linarith
  finally have "(k + (c + e - k mod e) mod e) mod e = c" using assms by simp
  then show "\<exists>i. i < e \<and> (k + i) mod e = c"
    using assms by (intro exI [of _ "(c + e - k mod e) mod e"]) simp
next
  fix i j
  assume "i < e \<and> (k + i) mod e = c" and "j < e \<and> (k + j) mod e = c"
  then show "i = j" using residue_injective [of i j e k] residue_injective [of j i e k]
    by (cases "i \<le> j") auto
qed


text \<open>
  C29. The two expensive reads: with equal periods of at least four scans the descriptor walk and
  the memory walk never fall on the same scan, the first one apart; with a period of two or three
  they always do, although the schedule is meant to keep them apart.
\<close>

theorem expensive_reads_apart:
  assumes "c_fd_scan_every (c_scan cfg) = int every" and "c_smaps_scan_every (c_scan cfg) = int every"
    and "1 < every" and "every < 2 ^ 63" and "c_read_smaps (c_scan cfg)"
  shows "(4 \<le> every \<and> n \<noteq> 1 \<longrightarrow> \<not> (should_scan_fds cfg n \<and> should_scan_smaps cfg n))
    \<and> (every \<in> {2, 3} \<longrightarrow> should_scan_fds cfg n = should_scan_smaps cfg n)
    \<and> should_scan_fds cfg 1 \<and> should_scan_smaps cfg 1"
proof -
  have s: "should_scan_fds cfg n \<longleftrightarrow> unat n mod every = 1 \<or> n = 1"
    "should_scan_smaps cfg n \<longleftrightarrow> unat n mod every = every div 2 \<or> n = 1"
    using should_scan_fds_iff [of cfg n] should_scan_smaps_iff [of cfg n] assms by simp_all
  have "every div 2 \<noteq> 1" if "4 \<le> every" using that by linarith
  with s show ?thesis
    using assms(5) by (auto simp: should_scan_fds_def should_scan_smaps_def Let_def)
qed

end
