(* ===== verification/GoTime.thy ===== *)
theory GoTime
  imports Float64 GoStrings "HOL-Library.Signed_Division"
begin

text \<open>
  The parts of the package \<^verbatim>\<open>time\<close> the program calls. A duration is a signed number of
  nanoseconds; \<^const>\<open>signed_divide\<close> and \<^const>\<open>signed_modulo\<close> truncate towards zero, as the operators of
  Go do. An instant is the number of nanoseconds since the Unix epoch.
\<close>

definition duration_seconds :: "int \<Rightarrow> float64" where
  "duration_seconds d =
     fadd (float64_of_int (d sdiv 1000000000)) (fdiv (float64_of_int (d smod 1000000000)) 1000000000)"

definition unix_seconds :: "int \<Rightarrow> int" where
  "unix_seconds t = t div 1000000000"

text \<open>\<^verbatim>\<open>Truncate\<close> to a positive multiple.\<close>

definition duration_truncate :: "int \<Rightarrow> int \<Rightarrow> int" where
  "duration_truncate d m = d - d smod m"

text \<open>The zero value of \<^verbatim>\<open>time.Time\<close>, which \<^verbatim>\<open>IsZero\<close> tests.\<close>

definition zero_time :: int where "zero_time = - 62135596800000000000"

text \<open>\<^verbatim>\<open>Time.Sub\<close> saturates at the bounds of a duration.\<close>

definition time_sub :: "int \<Rightarrow> int \<Rightarrow> int" where
  "time_sub a b = max (- (2 ^ 63)) (min (2 ^ 63 - 1) (a - b))"

section \<open>Duration.String\<close>

text \<open>
  \<^verbatim>\<open>fmtFrac\<close>: at most \<open>prec\<close> digits of a fraction without its trailing zeros, in front of the text
  that follows, and what is left of the number. \<open>shown\<close> is the variable \<^verbatim>\<open>print\<close>.
\<close>

fun frac_digits :: "nat \<Rightarrow> bool \<Rightarrow> nat \<Rightarrow> string \<Rightarrow> string \<times> nat" where
  "frac_digits 0 shown v buf = (if shown then CHR ''.'' # buf else buf, v)"
| "frac_digits (Suc prec) shown v buf =
     (let d = v mod 10; shown' = (shown \<or> d \<noteq> 0)
      in frac_digits prec shown' (v div 10) (if shown' then digit_char d # buf else buf))"

definition fmt_frac :: "nat \<Rightarrow> nat \<Rightarrow> string \<Rightarrow> string \<times> nat" where
  "fmt_frac prec v buf = frac_digits prec False v buf"

text \<open>The unit for microseconds is the character U+00B5, two bytes in UTF-8.\<close>

definition micro_sign :: string where "micro_sign = [CHR 0xC2, CHR 0xB5]"

definition duration_magnitude :: "nat \<Rightarrow> string" where
  "duration_magnitude u =
     (if u = 0 then ''0s''
      else if u < 1000000000 then
        (case if u < 1000 then fmt_frac 0 u ''ns''
              else if u < 1000000 then fmt_frac 3 u (micro_sign @ ''s'')
              else fmt_frac 6 u ''ms'' of
           (buf, v) \<Rightarrow> format_uint v @ buf)
      else
        (case fmt_frac 9 u ''s'' of (buf, secs) \<Rightarrow>
           let buf = format_uint (secs mod 60) @ buf; mins = secs div 60
           in if mins = 0 then buf
              else let buf = format_uint (mins mod 60) @ ''m'' @ buf; hours = mins div 60
                in if hours = 0 then buf else format_uint hours @ ''h'' @ buf))"

definition duration_string :: "int \<Rightarrow> string" where
  "duration_string d =
     (if d < 0 then CHR ''-'' # duration_magnitude (nat (- d)) else duration_magnitude (nat d))"

lemma duration_seconds_nonneg: "0 \<le> d \<Longrightarrow> 0 \<le> duration_seconds d"
  by (simp add: duration_seconds_def fadd_def fdiv_nonneg float64_of_int_nonneg rnd64_nonneg
      signed_divide_int_def signed_modulo_int_def sgn_if)

end
