(* ===== verification/Aggregate.thy ===== *)
theory Aggregate
  imports Scan GoTime
begin

text \<open>
  \<^verbatim>\<open>internal/aggregate/aggregate.go\<close>: the groups. The mutex of the code makes each operation
  atomic, so an operation is a function on the state. The order of \<^verbatim>\<open>List\<close> is that of the map,
  which the code leaves open.
\<close>

section \<open>Data\<close>

record group_key =
  k_name :: string
  k_user :: string

record accum =
  ac_utime_seconds :: float64
  ac_stime_seconds :: float64
  ac_minor_faults :: u64
  ac_major_faults :: u64
  ac_vol_ctx_sw :: u64
  ac_invol_ctx_sw :: u64
  ac_read_bytes :: u64
  ac_write_bytes :: u64
  ac_last_seen :: instant

definition empty_accum :: accum where
  "empty_accum = \<lparr>ac_utime_seconds = 0, ac_stime_seconds = 0, ac_minor_faults = 0,
     ac_major_faults = 0, ac_vol_ctx_sw = 0, ac_invol_ctx_sw = 0, ac_read_bytes = 0,
     ac_write_bytes = 0, ac_last_seen = zero_time\<rparr>"

record sample =
  sa_key :: group_key
  sa_num_procs :: nat
  sa_threads :: go_int
  sa_rss_bytes :: u64
  sa_vsize_bytes :: u64
  sa_shared_bytes :: u64
  sa_data_bytes :: u64
  sa_swap_bytes :: u64
  sa_open_fds :: go_int
  sa_max_fds :: go_int
  sa_oldest_start :: float64
  sa_states :: "(char, nat) gmap"
  sa_state_names :: "(string, nat) gmap"
  sa_worst_fd_ratio :: float64
  sa_pss_bytes :: u64
  sa_swap_pss_bytes :: u64
  sa_accum :: accum
  sa_fds_read :: nat
  sa_io_read :: nat
  sa_pss_read :: nat

definition coverage :: "nat \<Rightarrow> nat \<Rightarrow> float64" where
  "coverage n total_procs =
     (if total_procs = 0 then 0 else fdiv (float64_of_int (int n)) (float64_of_int (int total_procs)))"

definition fd_coverage :: "sample \<Rightarrow> float64" where
  "fd_coverage s = coverage (sa_fds_read s) (sa_num_procs s)"

definition io_coverage :: "sample \<Rightarrow> float64" where
  "io_coverage s = coverage (sa_io_read s) (sa_num_procs s)"

definition pss_coverage :: "sample \<Rightarrow> float64" where
  "pss_coverage s = coverage (sa_pss_read s) (sa_num_procs s)"

record snapshot =
  sn_groups :: "(group_key, sample) gmap"
  sn_list :: "sample list"
  sn_scan_at :: instant
  sn_duration :: duration
  sn_procs_total :: nat
  sn_procs_scanned :: nat
  sn_procs_ignored :: nat
  sn_procs_vanished :: nat
  sn_procs_denied :: nat
  sn_read_errs :: "(string, nat) gmap"
  sn_state_entries :: nat
  sn_self_cpu :: float64
  sn_names_seen :: nat
  sn_scan_number :: u64

record aggregator =
  ag_accums :: "(group_key, accum) gmap"
  ag_names_seen :: "(string, unit) gmap"
  ag_system :: system
  ag_scans :: u64

definition aggregator_new :: "system \<Rightarrow> aggregator" where
  "aggregator_new sys = \<lparr>ag_accums = [], ag_names_seen = [], ag_system = sys, ag_scans = 0\<rparr>"

section \<open>Operations\<close>

definition state_name :: "char \<Rightarrow> string" where
  "state_name s =
     (if s = CHR ''R'' then ''running''
      else if s = CHR ''S'' then ''sleeping''
      else if s = CHR ''D'' then ''disk_sleep''
      else if s = CHR ''Z'' then ''zombie''
      else if s = CHR ''T'' then ''stopped''
      else if s = CHR ''t'' then ''tracing_stop''
      else if s = CHR ''X'' \<or> s = CHR ''x'' then ''dead''
      else if s = CHR ''I'' then ''idle''
      else if s = CHR ''K'' then ''wakekill''
      else if s = CHR ''W'' then ''waking''
      else if s = CHR ''P'' then ''parked''
      else ''unknown'')"

definition key_of :: "process \<Rightarrow> group_key" where
  "key_of p = \<lparr>k_name = p_name p, k_user = p_user p\<rparr>"

definition new_sample :: "process \<Rightarrow> sample" where
  "new_sample p = \<lparr>sa_key = key_of p, sa_num_procs = 0, sa_threads = 0, sa_rss_bytes = 0,
     sa_vsize_bytes = 0, sa_shared_bytes = 0, sa_data_bytes = 0, sa_swap_bytes = 0,
     sa_open_fds = 0, sa_max_fds = 0, sa_oldest_start = p_start_unix p, sa_states = [],
     sa_state_names = [], sa_worst_fd_ratio = 0, sa_pss_bytes = 0, sa_swap_pss_bytes = 0,
     sa_accum = empty_accum, sa_fds_read = 0, sa_io_read = 0, sa_pss_read = 0\<rparr>"

text \<open>The body of the loop of \<^verbatim>\<open>Apply\<close> on the sample, up to the call of \<^verbatim>\<open>accumulate\<close>.\<close>

definition add_gauges :: "process \<Rightarrow> sample \<Rightarrow> sample" where
  "add_gauges p s = s\<lparr>
     sa_num_procs := sa_num_procs s + 1,
     sa_threads := int_add (sa_threads s) (p_threads p),
     sa_rss_bytes := sa_rss_bytes s + p_rss_bytes p,
     sa_vsize_bytes := sa_vsize_bytes s + p_vsize_bytes p,
     sa_shared_bytes := sa_shared_bytes s + p_shared_bytes p,
     sa_data_bytes := sa_data_bytes s + p_data_bytes p,
     sa_swap_bytes := sa_swap_bytes s + p_swap_bytes p,
     sa_states := gmap_inc (p_state p) (sa_states s)\<rparr>"

definition add_pss :: "process \<Rightarrow> sample \<Rightarrow> sample" where
  "add_pss p s =
     (if p_have_pss p
      then s\<lparr>sa_pss_bytes := sa_pss_bytes s + p_pss_bytes p,
        sa_swap_pss_bytes := sa_swap_pss_bytes s + p_swap_pss_bytes p,
        sa_pss_read := sa_pss_read s + 1\<rparr>
      else s)"

definition add_start :: "process \<Rightarrow> sample \<Rightarrow> sample" where
  "add_start p s =
     (if 0 < p_start_unix p \<and> (sa_oldest_start s = 0 \<or> p_start_unix p < sa_oldest_start s)
      then s\<lparr>sa_oldest_start := p_start_unix p\<rparr> else s)"

definition add_fds :: "process \<Rightarrow> sample \<Rightarrow> sample" where
  "add_fds p s =
     (if p_have_fds p \<and> 0 \<le> p_open_fds p
      then s\<lparr>sa_open_fds := int_add (sa_open_fds s) (p_open_fds p),
        sa_fds_read := sa_fds_read s + 1,
        sa_max_fds := (if 0 < p_max_fds p then int_add (sa_max_fds s) (p_max_fds p) else sa_max_fds s),
        sa_worst_fd_ratio := (if p_fd_ratio p > sa_worst_fd_ratio s then p_fd_ratio p else sa_worst_fd_ratio s)\<rparr>
      else s)"

definition add_io :: "process \<Rightarrow> sample \<Rightarrow> sample" where
  "add_io p s = (if p_have_io p then s\<lparr>sa_io_read := sa_io_read s + 1\<rparr> else s)"

definition add_process :: "process \<Rightarrow> sample \<Rightarrow> sample" where
  "add_process p s = add_io p (add_fds p (add_start p (add_pss p (add_gauges p s))))"

definition add_deltas :: "system \<Rightarrow> process \<Rightarrow> accum \<Rightarrow> accum" where
  "add_deltas sys p acc = acc\<lparr>
     ac_utime_seconds := fadd (ac_utime_seconds acc) (ticks_to_seconds sys (p_d_utime_ticks p)),
     ac_stime_seconds := fadd (ac_stime_seconds acc) (ticks_to_seconds sys (p_d_stime_ticks p)),
     ac_minor_faults := ac_minor_faults acc + p_d_minor_faults p,
     ac_major_faults := ac_major_faults acc + p_d_major_faults p,
     ac_vol_ctx_sw := (if p_have_status p then ac_vol_ctx_sw acc + p_d_vol_ctx_sw p else ac_vol_ctx_sw acc),
     ac_invol_ctx_sw := (if p_have_status p then ac_invol_ctx_sw acc + p_d_invol_ctx_sw p else ac_invol_ctx_sw acc),
     ac_read_bytes := (if p_have_io p then ac_read_bytes acc + p_d_read_bytes p else ac_read_bytes acc),
     ac_write_bytes := (if p_have_io p then ac_write_bytes acc + p_d_write_bytes p else ac_write_bytes acc)\<rparr>"

definition accumulate ::
  "system \<Rightarrow> group_key \<Rightarrow> process \<Rightarrow> instant \<Rightarrow> (group_key, accum) gmap \<Rightarrow> (group_key, accum) gmap" where
  "accumulate sys k p now accums =
     (let acc0 = (case map_of accums k of None \<Rightarrow> empty_accum | Some a \<Rightarrow> a);
          acc = acc0\<lparr>ac_last_seen := now\<rparr>
      in AList.update k (if \<not> p_have_deltas p then acc else add_deltas sys p acc) accums)"

definition prune_accums ::
  "instant \<Rightarrow> duration \<Rightarrow> (group_key, accum) gmap \<Rightarrow> (group_key, accum) gmap" where
  "prune_accums now retention accums =
     (if retention \<le> 0 then accums
      else filter (\<lambda>(k, acc). \<not> time_sub now (ac_last_seen acc) > retention) accums)"

text \<open>One iteration of the loop over the processes: the accumulators, the names and the groups.\<close>

type_synonym apply_state =
  "(group_key, accum) gmap \<times> (string, unit) gmap \<times> (group_key, sample) gmap"

definition apply_process :: "system \<Rightarrow> instant \<Rightarrow> process \<Rightarrow> apply_state \<Rightarrow> apply_state" where
  "apply_process sys now p st =
     (case st of (accums, names, groups) \<Rightarrow>
        (let k = key_of p;
             s = (case map_of groups k of None \<Rightarrow> new_sample p | Some s \<Rightarrow> s)
         in (accumulate sys k p now accums, AList.update (p_name p) () names,
             AList.update k (add_process p s) groups)))"

definition state_names :: "(char, nat) gmap \<Rightarrow> (string, nat) gmap" where
  "state_names states = fold (\<lambda>(st, n) m. AList.update (state_name st) n m) states []"

definition finish_group :: "(group_key, accum) gmap \<Rightarrow> group_key \<times> sample \<Rightarrow> group_key \<times> sample" where
  "finish_group accums ks =
     (case ks of (k, s) \<Rightarrow>
        (k, s\<lparr>sa_accum := (case map_of accums k of None \<Rightarrow> sa_accum s | Some a \<Rightarrow> a),
              sa_state_names := state_names (sa_states s)\<rparr>))"

text \<open>\<open>clock\<close> is what \<^verbatim>\<open>time.Now\<close> returns.\<close>

definition apply_scan :: "instant \<Rightarrow> scan_res \<Rightarrow> duration \<Rightarrow> aggregator \<Rightarrow> aggregator \<times> snapshot" where
  "apply_scan clock res retention a =
     (let scans = ag_scans a + 1;
          now = (if rs_scan_at res = zero_time then clock else rs_scan_at res)
      in case fold (apply_process (ag_system a) now) (rs_procs res) (ag_accums a, ag_names_seen a, []) of
           (accums, names, groups) \<Rightarrow>
             (let done = map (finish_group accums) groups
              in (a\<lparr>ag_accums := prune_accums now retention accums, ag_names_seen := names, ag_scans := scans\<rparr>,
                  \<lparr>sn_groups = done, sn_list = map snd done, sn_scan_at = now,
                   sn_duration = rs_duration res, sn_procs_total = rs_total res,
                   sn_procs_scanned = rs_scanned res, sn_procs_ignored = rs_ignored res,
                   sn_procs_vanished = rs_vanished res, sn_procs_denied = rs_denied res,
                   sn_read_errs = rs_read_errs res, sn_state_entries = rs_state_entries res,
                   sn_self_cpu = rs_self_cpu res, sn_names_seen = length names,
                   sn_scan_number = scans\<rparr>)))"

definition names_seen :: "aggregator \<Rightarrow> nat" where
  "names_seen a = length (ag_names_seen a)"

definition aggregator_reset :: "aggregator \<Rightarrow> aggregator" where
  "aggregator_reset a = a\<lparr>ag_accums := [], ag_names_seen := []\<rparr>"

end
