(* ===== verification/AggregateProps.thy ===== *)
theory AggregateProps
  imports Aggregate
begin

text \<open>
  Properties of the groups. The loop of \<^const>\<open>apply_scan\<close> is first taken apart by key: a group
  is the fold of its members, and an accumulator the fold of their deltas. The contract of the
  exported counters is the locale \<open>monotone_counter\<close>, of which the accumulated seconds and the
  accumulated 64-bit counters are instances.
\<close>

section \<open>The loop by key\<close>

definition members :: "group_key \<Rightarrow> process list \<Rightarrow> process list" where
  "members k ps = filter (\<lambda>p. key_of p = k) ps"

definition add_member :: "system \<Rightarrow> instant \<Rightarrow> process \<Rightarrow> accum \<Rightarrow> accum" where
  "add_member sys now p a =
     (if p_have_deltas p then add_deltas sys p (a\<lparr>ac_last_seen := now\<rparr>) else a\<lparr>ac_last_seen := now\<rparr>)"

definition accum_of :: "(group_key, accum) gmap \<Rightarrow> group_key \<Rightarrow> accum" where
  "accum_of accums k = (case map_of accums k of None \<Rightarrow> empty_accum | Some a \<Rightarrow> a)"

lemma members_simps [simp]:
  "members k [] = []"
  "members k (p # ps) = (if key_of p = k then p # members k ps else members k ps)"
  by (simp_all add: members_def)

lemma map_of_accumulate:
  "map_of (accumulate sys k p now accums) k' =
    (if k' = k then Some (add_member sys now p (accum_of accums k)) else map_of accums k')"
  by (simp add: accumulate_def add_member_def accum_of_def Let_def gmap_simps)

lemma accum_of_accumulate:
  "accum_of (accumulate sys k p now accums) k' =
    (if k' = k then add_member sys now p (accum_of accums k) else accum_of accums k')"
  by (simp add: accum_of_def [of "accumulate sys k p now accums"] map_of_accumulate)
     (simp add: accum_of_def)

lemma apply_process_eq:
  "apply_process sys now p (accums, names, groups) =
    (accumulate sys (key_of p) p now accums, AList.update (p_name p) () names,
     AList.update (key_of p)
       (add_process p (case map_of groups (key_of p) of None \<Rightarrow> new_sample p | Some s \<Rightarrow> s)) groups)"
  by (simp add: apply_process_def Let_def)

lemma apply_loop_groups:
  assumes "fold (apply_process sys now) ps (accums, names, groups) = (accums', names', groups')"
  shows "map_of groups' k =
    (if members k ps = [] then map_of groups k
     else Some (fold add_process (members k ps)
       (case map_of groups k of None \<Rightarrow> new_sample (hd (members k ps)) | Some s \<Rightarrow> s)))"
  using assms
proof (induction ps arbitrary: accums names groups)
  case (Cons p ps)
  let ?s = "case map_of groups (key_of p) of None \<Rightarrow> new_sample p | Some s \<Rightarrow> s"
  let ?groups = "AList.update (key_of p) (add_process p ?s) groups"
  from Cons.prems have "fold (apply_process sys now) ps
      (accumulate sys (key_of p) p now accums, AList.update (p_name p) () names, ?groups)
      = (accums', names', groups')"
    by (simp add: apply_process_eq)
  from Cons.IH [OF this] show ?case
    by (auto simp: gmap_simps split: option.split)
qed simp

lemma apply_loop_accums:
  assumes "fold (apply_process sys now) ps (accums, names, groups) = (accums', names', groups')"
  shows "map_of accums' k =
    (if members k ps = [] then map_of accums k
     else Some (fold (add_member sys now) (members k ps) (accum_of accums k)))"
  using assms
proof (induction ps arbitrary: accums names groups)
  case (Cons p ps)
  let ?s = "case map_of groups (key_of p) of None \<Rightarrow> new_sample p | Some s \<Rightarrow> s"
  let ?accums = "accumulate sys (key_of p) p now accums"
  from Cons.prems have "fold (apply_process sys now) ps
      (?accums, AList.update (p_name p) () names, AList.update (key_of p) (add_process p ?s) groups)
      = (accums', names', groups')"
    by (simp add: apply_process_eq)
  from Cons.IH [OF this] show ?case
    by (simp add: map_of_accumulate accum_of_accumulate)
qed simp

lemma apply_loop_wf:
  "fold (apply_process sys now) ps (accums, names, groups) = (accums', names', groups') \<Longrightarrow>
    (gmap_wf accums \<longrightarrow> gmap_wf accums') \<and> (gmap_wf names \<longrightarrow> gmap_wf names')
    \<and> (gmap_wf groups \<longrightarrow> gmap_wf groups') \<and> gmap_keys groups' = gmap_keys groups \<union> key_of ` set ps
    \<and> gmap_keys names' = gmap_keys names \<union> p_name ` set ps"
proof (induction ps arbitrary: accums names groups)
  case (Cons p ps)
  let ?s = "case map_of groups (key_of p) of None \<Rightarrow> new_sample p | Some s \<Rightarrow> s"
  from Cons.prems have "fold (apply_process sys now) ps
      (accumulate sys (key_of p) p now accums, AList.update (p_name p) () names,
       AList.update (key_of p) (add_process p ?s) groups) = (accums', names', groups')"
    by (simp add: apply_process_eq)
  from Cons.IH [OF this] show ?case
    by (simp add: accumulate_def Let_def wf_intros dom_update)
qed simp

definition apply_now :: "instant \<Rightarrow> scan_res \<Rightarrow> instant" where
  "apply_now clock res = (if rs_scan_at res = zero_time then clock else rs_scan_at res)"

text \<open>A call of \<^const>\<open>apply_scan\<close> is a run of the loop and what is made of it.\<close>

lemma apply_scan_loop:
  assumes "apply_scan clock res retention a = (a', snap)"
  obtains accums names groups where
    "fold (apply_process (ag_system a) (apply_now clock res)) (rs_procs res) (ag_accums a, ag_names_seen a, [])
      = (accums, names, groups)"
    "ag_accums a' = prune_accums (apply_now clock res) retention accums"
    "ag_names_seen a' = names" "ag_system a' = ag_system a"
    "sn_groups snap = map (finish_group accums) groups" "sn_list snap = map snd (sn_groups snap)"
    "sn_names_seen snap = length names"
proof -
  obtain accums names groups where l:
    "fold (apply_process (ag_system a) (apply_now clock res)) (rs_procs res) (ag_accums a, ag_names_seen a, [])
      = (accums, names, groups)"
    by (rule prod_cases3)
  show thesis
  proof (rule that [OF l])
    note r = assms [unfolded apply_scan_def Let_def apply_now_def [symmetric] l prod.case]
    note a = r [THEN arg_cong [where f = fst], unfolded fst_conv, symmetric]
    note s = r [THEN arg_cong [where f = snd], unfolded snd_conv, symmetric]
    show "ag_accums a' = prune_accums (apply_now clock res) retention accums"
      "ag_names_seen a' = names" "ag_system a' = ag_system a" unfolding a by simp_all
    show "sn_groups snap = map (finish_group accums) groups" "sn_list snap = map snd (sn_groups snap)"
      "sn_names_seen snap = length names" unfolding s by simp_all
  qed
qed

lemma finish_group_pair: "finish_group accums (k, s) = (k, snd (finish_group accums (k, s)))"
  by (simp add: finish_group_def)

lemma map_of_finish:
  "map_of (map (finish_group accums) groups) k = map_option (\<lambda>s. snd (finish_group accums (k, s))) (map_of groups k)"
proof (induction groups)
  case (Cons g groups)
  obtain k' s where g: "g = (k', s)" by (cases g)
  have "map_of (map (finish_group accums) (g # groups)) k
      = map_of ((k', snd (finish_group accums (k', s))) # map (finish_group accums) groups) k"
    unfolding g list.map by (subst finish_group_pair) (rule refl)
  with Cons.IH show ?case by (simp add: g)
qed simp

lemma finish_group_frame:
  assumes "s' = snd (finish_group accums (k, s))"
  shows "sa_key s' = sa_key s \<and> sa_num_procs s' = sa_num_procs s \<and> sa_threads s' = sa_threads s
    \<and> sa_rss_bytes s' = sa_rss_bytes s \<and> sa_vsize_bytes s' = sa_vsize_bytes s
    \<and> sa_shared_bytes s' = sa_shared_bytes s \<and> sa_data_bytes s' = sa_data_bytes s
    \<and> sa_swap_bytes s' = sa_swap_bytes s \<and> sa_open_fds s' = sa_open_fds s
    \<and> sa_max_fds s' = sa_max_fds s \<and> sa_oldest_start s' = sa_oldest_start s
    \<and> sa_states s' = sa_states s \<and> sa_worst_fd_ratio s' = sa_worst_fd_ratio s
    \<and> sa_pss_bytes s' = sa_pss_bytes s \<and> sa_swap_pss_bytes s' = sa_swap_pss_bytes s
    \<and> sa_fds_read s' = sa_fds_read s \<and> sa_io_read s' = sa_io_read s \<and> sa_pss_read s' = sa_pss_read s
    \<and> sa_state_names s' = state_names (sa_states s)"
  by (simp add: assms finish_group_def)

lemma apply_scan_group:
  assumes "apply_scan clock res retention a = (a', snap)" and "map_of (sn_groups snap) k = Some s"
  obtains accums ms where "ms = members k (rs_procs res)" "ms \<noteq> []"
    "s = snd (finish_group accums (k, fold add_process ms (new_sample (hd ms))))"
    "map_of accums k = Some (fold (add_member (ag_system a) (apply_now clock res)) ms (accum_of (ag_accums a) k))"
    "ag_accums a' = prune_accums (apply_now clock res) retention accums"
  using assms(1)
proof (rule apply_scan_loop)
  fix accums names groups
  assume l: "fold (apply_process (ag_system a) (apply_now clock res)) (rs_procs res) (ag_accums a, ag_names_seen a, [])
      = (accums, names, groups)"
    and p: "ag_accums a' = prune_accums (apply_now clock res) retention accums"
    and g: "sn_groups snap = map (finish_group accums) groups"
  show thesis
    using assms(2) apply_loop_groups [OF l, of k] apply_loop_accums [OF l, of k] p
    by (intro that [of "members k (rs_procs res)" accums]) (auto simp: g map_of_finish split: if_split_asm)
qed

section \<open>The sums of a group\<close>

lemma wrap64_add: "int_add (wrap64 x) y = wrap64 (x + y)"
  unfolding int_add_def wrap64_def by (simp add: mod_simps algebra_simps)

lemma add_process_fields:
  "sa_key (add_process p s) = sa_key s"
  "sa_num_procs (add_process p s) = sa_num_procs s + 1"
  "sa_threads (add_process p s) = int_add (sa_threads s) (p_threads p)"
  "sa_rss_bytes (add_process p s) = sa_rss_bytes s + p_rss_bytes p"
  "sa_vsize_bytes (add_process p s) = sa_vsize_bytes s + p_vsize_bytes p"
  "sa_shared_bytes (add_process p s) = sa_shared_bytes s + p_shared_bytes p"
  "sa_data_bytes (add_process p s) = sa_data_bytes s + p_data_bytes p"
  "sa_swap_bytes (add_process p s) = sa_swap_bytes s + p_swap_bytes p"
  "sa_states (add_process p s) = gmap_inc (p_state p) (sa_states s)"
  "sa_pss_bytes (add_process p s) = (if p_have_pss p then sa_pss_bytes s + p_pss_bytes p else sa_pss_bytes s)"
  "sa_swap_pss_bytes (add_process p s) =
    (if p_have_pss p then sa_swap_pss_bytes s + p_swap_pss_bytes p else sa_swap_pss_bytes s)"
  "sa_pss_read (add_process p s) = (if p_have_pss p then sa_pss_read s + 1 else sa_pss_read s)"
  "sa_io_read (add_process p s) = (if p_have_io p then sa_io_read s + 1 else sa_io_read s)"
  "sa_fds_read (add_process p s) =
    (if p_have_fds p \<and> 0 \<le> p_open_fds p then sa_fds_read s + 1 else sa_fds_read s)"
  "sa_open_fds (add_process p s) =
    (if p_have_fds p \<and> 0 \<le> p_open_fds p then int_add (sa_open_fds s) (p_open_fds p) else sa_open_fds s)"
  "sa_max_fds (add_process p s) =
    (if p_have_fds p \<and> 0 \<le> p_open_fds p \<and> 0 < p_max_fds p then int_add (sa_max_fds s) (p_max_fds p) else sa_max_fds s)"
  "sa_worst_fd_ratio (add_process p s) =
    (if p_have_fds p \<and> 0 \<le> p_open_fds p then max (sa_worst_fd_ratio s) (p_fd_ratio p) else sa_worst_fd_ratio s)"
  "sa_oldest_start (add_process p s) =
    (if 0 < p_start_unix p \<and> (sa_oldest_start s = 0 \<or> p_start_unix p < sa_oldest_start s)
     then p_start_unix p else sa_oldest_start s)"
  by (simp_all add: add_process_def add_io_def add_fds_def add_start_def add_pss_def add_gauges_def max_def) auto

text \<open>The members whose descriptor count enters the group.\<close>

definition counted :: "process \<Rightarrow> bool" where
  "counted p \<longleftrightarrow> p_have_fds p \<and> 0 \<le> p_open_fds p"

lemma fold_gauges:
  "sa_key (fold add_process ms s) = sa_key s"
  "sa_num_procs (fold add_process ms s) = sa_num_procs s + length ms"
  "sa_rss_bytes (fold add_process ms s) = sa_rss_bytes s + sum_list (map p_rss_bytes ms)"
  "sa_vsize_bytes (fold add_process ms s) = sa_vsize_bytes s + sum_list (map p_vsize_bytes ms)"
  "sa_shared_bytes (fold add_process ms s) = sa_shared_bytes s + sum_list (map p_shared_bytes ms)"
  "sa_data_bytes (fold add_process ms s) = sa_data_bytes s + sum_list (map p_data_bytes ms)"
  "sa_swap_bytes (fold add_process ms s) = sa_swap_bytes s + sum_list (map p_swap_bytes ms)"
  by (induction ms arbitrary: s) (simp_all add: add_process_fields add.assoc)

lemma fold_coverage:
  "sa_pss_bytes (fold add_process ms s) = sa_pss_bytes s + sum_list (map p_pss_bytes (filter p_have_pss ms))"
  "sa_swap_pss_bytes (fold add_process ms s) =
    sa_swap_pss_bytes s + sum_list (map p_swap_pss_bytes (filter p_have_pss ms))"
  "sa_pss_read (fold add_process ms s) = sa_pss_read s + length (filter p_have_pss ms)"
  "sa_io_read (fold add_process ms s) = sa_io_read s + length (filter p_have_io ms)"
  "sa_fds_read (fold add_process ms s) = sa_fds_read s + length (filter counted ms)"
  by (induction ms arbitrary: s) (simp_all add: add_process_fields add.assoc counted_def)

lemma fold_states:
  "gmap_count (sa_states (fold add_process ms s)) c
    = gmap_count (sa_states s) c + length (filter (\<lambda>p. p_state p = c) ms)"
  by (induction ms arbitrary: s) (simp_all add: add_process_fields gmap_simps)

lemma fold_states_wf:
  "gmap_wf (sa_states s) \<Longrightarrow> gmap_wf (sa_states (fold add_process ms s))
    \<and> gmap_keys (sa_states (fold add_process ms s)) = gmap_keys (sa_states s) \<union> p_state ` set ms"
  by (induction ms arbitrary: s) (auto simp: add_process_fields wf_intros gmap_inc_def dom_update)

lemma fold_threads:
  "sa_threads s = wrap64 x \<Longrightarrow>
    sa_threads (fold add_process ms s) = wrap64 (x + sum_list (map p_threads ms))"
  by (induction ms arbitrary: s x) (simp_all add: add_process_fields wrap64_add add.assoc)

lemma fold_open_fds:
  "sa_open_fds s = wrap64 x \<Longrightarrow>
    sa_open_fds (fold add_process ms s) = wrap64 (x + sum_list (map p_open_fds (filter counted ms)))"
proof (induction ms arbitrary: s x)
  case (Cons p ms)
  from Cons.IH [of "add_process p s" "if counted p then x + p_open_fds p else x"] Cons.prems show ?case
    by (simp add: add_process_fields wrap64_add add.assoc counted_def split: if_splits)
qed simp

lemma fold_max_fds:
  "sa_max_fds s = wrap64 x \<Longrightarrow>
    sa_max_fds (fold add_process ms s) =
      wrap64 (x + sum_list (map p_max_fds (filter (\<lambda>p. counted p \<and> 0 < p_max_fds p) ms)))"
proof (induction ms arbitrary: s x)
  case (Cons p ms)
  from Cons.IH [of "add_process p s" "if counted p \<and> 0 < p_max_fds p then x + p_max_fds p else x"] Cons.prems
  show ?case by (simp add: add_process_fields wrap64_add add.assoc counted_def split: if_splits)
qed simp

lemma new_sample_fields:
  "sa_key (new_sample p) = key_of p" "sa_num_procs (new_sample p) = 0" "sa_rss_bytes (new_sample p) = 0"
  "sa_vsize_bytes (new_sample p) = 0" "sa_shared_bytes (new_sample p) = 0" "sa_data_bytes (new_sample p) = 0"
  "sa_swap_bytes (new_sample p) = 0" "sa_pss_bytes (new_sample p) = 0" "sa_swap_pss_bytes (new_sample p) = 0"
  "sa_pss_read (new_sample p) = 0" "sa_io_read (new_sample p) = 0" "sa_fds_read (new_sample p) = 0"
  "sa_states (new_sample p) = []" "sa_worst_fd_ratio (new_sample p) = 0"
  "sa_oldest_start (new_sample p) = p_start_unix p"
  "sa_threads (new_sample p) = wrap64 0" "sa_open_fds (new_sample p) = wrap64 0" "sa_max_fds (new_sample p) = wrap64 0"
  by (simp_all add: new_sample_def wrap64_def)

lemmas group_sums = fold_gauges fold_coverage fold_threads [OF new_sample_fields(16)]
  fold_open_fds [OF new_sample_fields(17)] fold_max_fds [OF new_sample_fields(18)] new_sample_fields

lemma group_members_sum:
  assumes "apply_scan clock res retention a = (a', snap)" and "map_of (sn_groups snap) k = Some s"
    and "ms = members k (rs_procs res)"
  shows "ms \<noteq> [] \<and> sa_key s = k \<and> sa_num_procs s = length ms
    \<and> sa_threads s = wrap64 (sum_list (map p_threads ms))
    \<and> sa_rss_bytes s = sum_list (map p_rss_bytes ms) \<and> sa_vsize_bytes s = sum_list (map p_vsize_bytes ms)
    \<and> sa_shared_bytes s = sum_list (map p_shared_bytes ms) \<and> sa_data_bytes s = sum_list (map p_data_bytes ms)
    \<and> sa_swap_bytes s = sum_list (map p_swap_bytes ms)
    \<and> sa_pss_bytes s = sum_list (map p_pss_bytes (filter p_have_pss ms))
    \<and> sa_swap_pss_bytes s = sum_list (map p_swap_pss_bytes (filter p_have_pss ms))
    \<and> sa_open_fds s = wrap64 (sum_list (map p_open_fds (filter counted ms)))
    \<and> sa_max_fds s = wrap64 (sum_list (map p_max_fds (filter (\<lambda>p. counted p \<and> 0 < p_max_fds p) ms)))
    \<and> sa_fds_read s = length (filter counted ms) \<and> sa_io_read s = length (filter p_have_io ms)
    \<and> sa_pss_read s = length (filter p_have_pss ms)
    \<and> (\<forall>c. gmap_count (sa_states s) c = length (filter (\<lambda>p. p_state p = c) ms))"
  using assms(1,2)
proof (rule apply_scan_group)
  fix accums ms'
  assume ms': "ms' = members k (rs_procs res)" "ms' \<noteq> []"
    and s: "s = snd (finish_group accums (k, fold add_process ms' (new_sample (hd ms'))))"
  have ms: "ms' = ms" using ms' assms(3) by simp
  have "hd ms \<in> set ms" using ms' ms by simp
  then have "key_of (hd ms) = k" by (simp add: assms(3) members_def)
  then show ?thesis
    using finish_group_frame [OF s] ms'(2) unfolding ms by (simp add: group_sums fold_states)
qed

lemma members_count: "length (members k ps) = count_list (map key_of ps) k"
  by (induction ps) auto

lemma snapshot_groups:
  assumes "apply_scan clock res retention a = (a', snap)"
  shows "distinct (map fst (sn_groups snap)) \<and> set (map fst (sn_groups snap)) = key_of ` set (rs_procs res)
    \<and> sum_list (map sa_num_procs (sn_list snap)) = length (rs_procs res)
    \<and> (\<forall>(k, s) \<in> set (sn_groups snap). sa_key s = k)"
  using assms
proof (rule apply_scan_loop)
  fix accums names groups
  let ?ps = "rs_procs res"
  assume l: "fold (apply_process (ag_system a) (apply_now clock res)) ?ps (ag_accums a, ag_names_seen a, [])
      = (accums, names, groups)"
    and sn: "sn_groups snap = map (finish_group accums) groups" "sn_list snap = map snd (sn_groups snap)"
  have wf: "gmap_wf groups" and keys: "fst ` set groups = key_of ` set ?ps"
    using apply_loop_wf [OF l] by simp_all
  have fst_eq: "map fst (sn_groups snap) = map fst groups"
    unfolding sn by (simp add: finish_group_def case_prod_unfold comp_def)
  have d: "distinct (map fst groups)" using wf by (simp add: gmap_wf_def)
  have num: "sa_num_procs s = length (members k ?ps) \<and> sa_key s = k" if "(k, s) \<in> set (sn_groups snap)" for k s
  proof -
    have "map_of (sn_groups snap) k = Some s" using that d fst_eq by (metis map_of_is_SomeI)
    from group_members_sum [OF assms this refl] show ?thesis by simp
  qed
  have "sum_list (map sa_num_procs (sn_list snap)) = sum_list (map (\<lambda>k. length (members k ?ps)) (map fst (sn_groups snap)))"
    unfolding sn(2) map_map by (rule arg_cong [where f = sum_list]) (auto intro!: map_cong simp: num)
  also have "\<dots> = (\<Sum>k \<in> set (map fst groups). length (members k ?ps))"
    unfolding fst_eq by (rule sum_list_distinct_conv_sum_set [OF d])
  also have "\<dots> = (\<Sum>k \<in> set (map key_of ?ps). count_list (map key_of ?ps) k)"
    using keys by (simp add: members_count)
  also have "\<dots> = length ?ps" using sum_count_set [of "map key_of ?ps" "set (map key_of ?ps)"] by simp
  finally show ?thesis using d keys fst_eq num by auto
qed

text \<open>
  C7. A snapshot is exact: its groups partition the processes, each key once, and the member counts add
  up to the number of processes, so that none is lost or counted twice; and every group is the sum of
  its members: its gauges are the sums over exactly the processes with its key, modulo the width of the
  integers, each optional figure is summed and counted over the members that have it, and the state
  counts are those of the members.
\<close>

theorem snapshot_exact:
  assumes "apply_scan clock res retention a = (a', snap)"
  shows "distinct (map fst (sn_groups snap)) \<and> set (map fst (sn_groups snap)) = key_of ` set (rs_procs res)
    \<and> sum_list (map sa_num_procs (sn_list snap)) = length (rs_procs res)
    \<and> (\<forall>k s ms. map_of (sn_groups snap) k = Some s \<longrightarrow> ms = members k (rs_procs res) \<longrightarrow>
        ms \<noteq> [] \<and> sa_key s = k \<and> sa_num_procs s = length ms
        \<and> sa_threads s = wrap64 (sum_list (map p_threads ms))
        \<and> sa_rss_bytes s = sum_list (map p_rss_bytes ms) \<and> sa_vsize_bytes s = sum_list (map p_vsize_bytes ms)
        \<and> sa_shared_bytes s = sum_list (map p_shared_bytes ms) \<and> sa_data_bytes s = sum_list (map p_data_bytes ms)
        \<and> sa_swap_bytes s = sum_list (map p_swap_bytes ms)
        \<and> sa_pss_bytes s = sum_list (map p_pss_bytes (filter p_have_pss ms))
        \<and> sa_swap_pss_bytes s = sum_list (map p_swap_pss_bytes (filter p_have_pss ms))
        \<and> sa_open_fds s = wrap64 (sum_list (map p_open_fds (filter counted ms)))
        \<and> sa_max_fds s = wrap64 (sum_list (map p_max_fds (filter (\<lambda>p. counted p \<and> 0 < p_max_fds p) ms)))
        \<and> sa_fds_read s = length (filter counted ms) \<and> sa_io_read s = length (filter p_have_io ms)
        \<and> sa_pss_read s = length (filter p_have_pss ms)
        \<and> (\<forall>c. gmap_count (sa_states s) c = length (filter (\<lambda>p. p_state p = c) ms)))"
  using snapshot_groups [OF assms] group_members_sum [OF assms] by blast

section \<open>Coverage and extremes\<close>

lemma coverage_bounds:
  assumes "n \<le> m"
  shows "0 \<le> coverage n m \<and> coverage n m \<le> 1"
proof (cases "m = 0")
  case False
  then have "0 < float64_of_int (int m)" by (intro float64_of_int_pos) simp
  moreover have "float64_of_int (int n) \<le> float64_of_int (int m)"
    using assms by (intro float64_of_int_mono) simp
  ultimately show ?thesis
    using False by (simp add: coverage_def fdiv_nonneg fdiv_le_1 float64_of_int_nonneg)
qed (simp add: coverage_def)

lemma coverage_full: "0 < m \<Longrightarrow> coverage m m = 1"
  using float64_of_int_pos [of "int m"] by (simp add: coverage_def fdiv_self)

text \<open>
  The coverage ratios of a published group are ratios: each lies between zero and one, and it
  is one when every member was read, so that a value below one means that the total is partial.
\<close>

lemma coverage_is_ratio:
  assumes "apply_scan clock res retention a = (a', snap)" and "map_of (sn_groups snap) k = Some s"
  shows "(0 \<le> fd_coverage s \<and> fd_coverage s \<le> 1) \<and> (0 \<le> io_coverage s \<and> io_coverage s \<le> 1)
    \<and> (0 \<le> pss_coverage s \<and> pss_coverage s \<le> 1)
    \<and> ((\<forall>p \<in> set (members k (rs_procs res)). p_have_io p) \<longrightarrow> io_coverage s = 1)
    \<and> ((\<forall>p \<in> set (members k (rs_procs res)). p_have_pss p) \<longrightarrow> pss_coverage s = 1)
    \<and> ((\<forall>p \<in> set (members k (rs_procs res)). counted p) \<longrightarrow> fd_coverage s = 1)"
proof -
  let ?ms = "members k (rs_procs res)"
  have g: "?ms \<noteq> []" "sa_num_procs s = length ?ms" "sa_fds_read s = length (filter counted ?ms)"
    "sa_io_read s = length (filter p_have_io ?ms)" "sa_pss_read s = length (filter p_have_pss ?ms)"
    using group_members_sum [OF assms refl] by simp_all
  have b: "0 \<le> coverage (length (filter P ?ms)) (length ?ms) \<and> coverage (length (filter P ?ms)) (length ?ms) \<le> 1" for P
    by (rule coverage_bounds) simp
  have f: "\<forall>p \<in> set ?ms. P p \<Longrightarrow> coverage (length (filter P ?ms)) (length ?ms) = 1" for P
    using g(1) by (simp add: coverage_full)
  show ?thesis
    unfolding fd_coverage_def io_coverage_def pss_coverage_def g using b f by blast
qed

lemma fold_worst:
  "sa_worst_fd_ratio (fold add_process ms s) = fold max (map p_fd_ratio (filter counted ms)) (sa_worst_fd_ratio s)"
  by (induction ms arbitrary: s) (simp_all add: add_process_fields counted_def max.commute)

lemma fold_max_bounds:
  fixes x :: rat
  shows "x \<le> fold max ys x \<and> (\<forall>y \<in> set ys. y \<le> fold max ys x) \<and> (fold max ys x = x \<or> fold max ys x \<in> set ys)"
proof (induction ys arbitrary: x)
  case (Cons y ys)
  from Cons.IH [of "max y x"] show ?case by (auto simp: max_def split: if_splits)
qed simp

text \<open>
  One member near its limit is visible in any group: the published ratio is at least the
  ratio of every member whose descriptors were counted, and it is zero or the ratio of one of
  them, however many other members there are.
\<close>

lemma worst_ratio_is_maximum:
  assumes "apply_scan clock res retention a = (a', snap)" and "map_of (sn_groups snap) k = Some s"
  shows "(\<forall>p \<in> set (rs_procs res). key_of p = k \<and> counted p \<longrightarrow> p_fd_ratio p \<le> sa_worst_fd_ratio s)
    \<and> (sa_worst_fd_ratio s = 0
       \<or> (\<exists>p \<in> set (rs_procs res). key_of p = k \<and> counted p \<and> sa_worst_fd_ratio s = p_fd_ratio p))"
  using assms
proof (rule apply_scan_group)
  fix accums ms
  assume ms: "ms = members k (rs_procs res)"
    and s: "s = snd (finish_group accums (k, fold add_process ms (new_sample (hd ms))))"
  have w: "sa_worst_fd_ratio s = fold max (map p_fd_ratio (filter counted ms)) 0"
    using finish_group_frame [OF s] by (simp add: fold_worst new_sample_fields)
  show ?thesis
    using fold_max_bounds [of 0 "map p_fd_ratio (filter counted ms)"]
    unfolding w by (auto simp: ms members_def)
qed

lemma fold_oldest:
  assumes "\<forall>p \<in> set ms. 0 \<le> p_start_unix p" and "0 \<le> sa_oldest_start s"
  shows "0 \<le> sa_oldest_start (fold add_process ms s)
    \<and> (0 < sa_oldest_start s \<longrightarrow> 0 < sa_oldest_start (fold add_process ms s)
        \<and> sa_oldest_start (fold add_process ms s) \<le> sa_oldest_start s)
    \<and> (\<forall>p \<in> set ms. 0 < p_start_unix p \<longrightarrow> 0 < sa_oldest_start (fold add_process ms s)
        \<and> sa_oldest_start (fold add_process ms s) \<le> p_start_unix p)
    \<and> sa_oldest_start (fold add_process ms s) \<in> insert (sa_oldest_start s) (p_start_unix ` set ms)"
  using assms
proof (induction ms arbitrary: s)
  case (Cons p ms)
  let ?s = "add_process p s"
  have o: "sa_oldest_start ?s = (if 0 < p_start_unix p \<and> (sa_oldest_start s = 0 \<or> p_start_unix p < sa_oldest_start s)
     then p_start_unix p else sa_oldest_start s)" by (simp add: add_process_fields)
  have "0 \<le> sa_oldest_start ?s" using o Cons.prems by simp
  from Cons.IH [OF _ this] Cons.prems(1) have i:
    "0 \<le> sa_oldest_start (fold add_process ms ?s)"
    "0 < sa_oldest_start ?s \<Longrightarrow> 0 < sa_oldest_start (fold add_process ms ?s)
        \<and> sa_oldest_start (fold add_process ms ?s) \<le> sa_oldest_start ?s"
    "\<forall>p \<in> set ms. 0 < p_start_unix p \<longrightarrow> 0 < sa_oldest_start (fold add_process ms ?s)
        \<and> sa_oldest_start (fold add_process ms ?s) \<le> p_start_unix p"
    "sa_oldest_start (fold add_process ms ?s) \<in> insert (sa_oldest_start ?s) (p_start_unix ` set ms)"
    by auto
  have "0 < sa_oldest_start s \<Longrightarrow> 0 < sa_oldest_start ?s \<and> sa_oldest_start ?s \<le> sa_oldest_start s"
    using o by (auto split: if_splits)
  moreover have "0 < p_start_unix p \<Longrightarrow> 0 < sa_oldest_start ?s \<and> sa_oldest_start ?s \<le> p_start_unix p"
    using o Cons.prems(2) by (auto split: if_splits)
  moreover have "sa_oldest_start ?s \<in> {sa_oldest_start s, p_start_unix p}" using o by simp
  ultimately show ?case using i by (auto intro: order_trans)
qed simp

text \<open>
  The age of a group is that of its oldest member: when no start time is negative, the
  published start is the start of a member, and no member with a known (positive) start time is
  older.
\<close>

lemma oldest_start_is_minimum:
  assumes "apply_scan clock res retention a = (a', snap)" and "map_of (sn_groups snap) k = Some s"
    and "\<forall>p \<in> set (rs_procs res). 0 \<le> p_start_unix p"
  shows "(\<exists>p \<in> set (rs_procs res). key_of p = k \<and> sa_oldest_start s = p_start_unix p)
    \<and> (\<forall>p \<in> set (rs_procs res). key_of p = k \<and> 0 < p_start_unix p \<longrightarrow>
        0 < sa_oldest_start s \<and> sa_oldest_start s \<le> p_start_unix p)"
  using assms(1,2)
proof (rule apply_scan_group)
  fix accums ms
  assume ms: "ms = members k (rs_procs res)" "ms \<noteq> []"
    and s: "s = snd (finish_group accums (k, fold add_process ms (new_sample (hd ms))))"
  have set_ms: "set ms = {p \<in> set (rs_procs res). key_of p = k}" by (simp add: ms(1) members_def)
  have hd: "hd ms \<in> set ms" using ms(2) by simp
  have o: "sa_oldest_start s = sa_oldest_start (fold add_process ms (new_sample (hd ms)))"
    using finish_group_frame [OF s] by simp
  have nn: "\<forall>p \<in> set ms. 0 \<le> p_start_unix p" using assms(3) set_ms by simp
  note f = fold_oldest [OF nn, of "new_sample (hd ms)", unfolded new_sample_fields, folded o]
  have "insert (p_start_unix (hd ms)) (p_start_unix ` set ms) = p_start_unix ` set ms" using hd by auto
  then have "sa_oldest_start s \<in> p_start_unix ` set ms" using f nn hd by simp
  then show ?thesis using f nn hd set_ms by auto
qed

text \<open>
  C35. The summary figures of a group mean what they say: the published descriptor ratio is the largest
  of its members, so one process near its limit is visible in any group; the published start is that of
  its oldest member with a known start; and the coverage ratios lie between zero and one and are one
  when every member was read.
\<close>

theorem group_extremes:
  assumes "apply_scan clock res retention a = (a', snap)" and "map_of (sn_groups snap) k = Some s"
    and "ms = members k (rs_procs res)" and "\<forall>p \<in> set (rs_procs res). 0 \<le> p_start_unix p"
  shows "(\<forall>p \<in> set ms. counted p \<longrightarrow> p_fd_ratio p \<le> sa_worst_fd_ratio s)
    \<and> (sa_worst_fd_ratio s = 0 \<or> (\<exists>p \<in> set ms. counted p \<and> sa_worst_fd_ratio s = p_fd_ratio p))
    \<and> (\<exists>p \<in> set ms. sa_oldest_start s = p_start_unix p)
    \<and> (\<forall>p \<in> set ms. 0 < p_start_unix p \<longrightarrow> 0 < sa_oldest_start s \<and> sa_oldest_start s \<le> p_start_unix p)
    \<and> (\<forall>c \<in> {fd_coverage s, io_coverage s, pss_coverage s}. 0 \<le> c \<and> c \<le> 1)
    \<and> ((\<forall>p \<in> set ms. counted p) \<longrightarrow> fd_coverage s = 1)
    \<and> ((\<forall>p \<in> set ms. p_have_io p) \<longrightarrow> io_coverage s = 1)
    \<and> ((\<forall>p \<in> set ms. p_have_pss p) \<longrightarrow> pss_coverage s = 1)"
  using worst_ratio_is_maximum [OF assms(1,2)] oldest_start_is_minimum [OF assms(1,2,4)]
    coverage_is_ratio [OF assms(1,2)]
  by (auto simp: assms(3) members_def)

section \<open>Counters\<close>

text \<open>
  What a counter that scrapers take rates of must satisfy: adding one process's increment does not
  decrease it, as long as there is room, and leaves a representable value.
\<close>

locale monotone_counter =
  fixes bump :: "'d \<Rightarrow> 'v::order \<Rightarrow> 'v"
    and fits :: "'v \<Rightarrow> bool"
    and room :: "'d \<Rightarrow> 'v \<Rightarrow> bool"
  assumes fits_bump: "fits v \<Longrightarrow> fits (bump d v)"
    and bump_le: "fits v \<Longrightarrow> room d v \<Longrightarrow> v \<le> bump d v"
begin

lemma fold_fits: "fits v \<Longrightarrow> fits (fold bump ds v)"
  by (induction ds arbitrary: v) (simp_all add: fits_bump)

lemma fold_le:
  "fits v \<Longrightarrow> (\<And>xs d ys. ds = xs @ d # ys \<Longrightarrow> room d (fold bump xs v)) \<Longrightarrow> v \<le> fold bump ds v"
proof (induction ds arbitrary: v)
  case (Cons d ds)
  have "v \<le> bump d v" using Cons.prems(2) [of "[]" d ds] by (intro bump_le Cons.prems(1)) simp
  also have "\<dots> \<le> fold bump ds (bump d v)"
  proof (rule Cons.IH [OF fits_bump [OF Cons.prems(1)]])
    fix xs e ys
    assume "ds = xs @ e # ys"
    then show "room e (fold bump xs (bump d v))" using Cons.prems(2) [of "d # xs" e ys] by simp
  qed
  finally show ?case by simp
qed simp

end

definition add_seconds :: "system \<Rightarrow> u64 \<Rightarrow> float64 \<Rightarrow> float64" where
  "add_seconds sys d v = fadd v (ticks_to_seconds sys d)"

definition add_word :: "u64 \<Rightarrow> u64 \<Rightarrow> u64" where
  "add_word d v = v + d"

interpretation seconds: monotone_counter "add_seconds sys" is_float64 "\<lambda>_ _. True"
  by unfold_locales (simp_all add: add_seconds_def fadd_def fadd_increases [unfolded fadd_def] ticks_to_seconds_nonneg)

interpretation words: monotone_counter add_word "\<lambda>_. True" "\<lambda>d v. unat v + unat d < 2 ^ 64"
  by unfold_locales (simp_all add: add_word_def unat_add_le_of_no_overflow)

definition with_deltas :: "process list \<Rightarrow> process list" where
  "with_deltas ms = filter p_have_deltas ms"

lemma add_member_fields:
  "ac_utime_seconds (add_member sys now p a) =
    (if p_have_deltas p then add_seconds sys (p_d_utime_ticks p) (ac_utime_seconds a) else ac_utime_seconds a)"
  "ac_stime_seconds (add_member sys now p a) =
    (if p_have_deltas p then add_seconds sys (p_d_stime_ticks p) (ac_stime_seconds a) else ac_stime_seconds a)"
  "ac_minor_faults (add_member sys now p a) =
    (if p_have_deltas p then add_word (p_d_minor_faults p) (ac_minor_faults a) else ac_minor_faults a)"
  "ac_major_faults (add_member sys now p a) =
    (if p_have_deltas p then add_word (p_d_major_faults p) (ac_major_faults a) else ac_major_faults a)"
  "ac_read_bytes (add_member sys now p a) =
    (if p_have_deltas p \<and> p_have_io p then add_word (p_d_read_bytes p) (ac_read_bytes a) else ac_read_bytes a)"
  "ac_write_bytes (add_member sys now p a) =
    (if p_have_deltas p \<and> p_have_io p then add_word (p_d_write_bytes p) (ac_write_bytes a) else ac_write_bytes a)"
  "ac_vol_ctx_sw (add_member sys now p a) =
    (if p_have_deltas p \<and> p_have_status p then add_word (p_d_vol_ctx_sw p) (ac_vol_ctx_sw a) else ac_vol_ctx_sw a)"
  "ac_invol_ctx_sw (add_member sys now p a) =
    (if p_have_deltas p \<and> p_have_status p then add_word (p_d_invol_ctx_sw p) (ac_invol_ctx_sw a)
     else ac_invol_ctx_sw a)"
  "ac_last_seen (add_member sys now p a) = now"
  by (simp_all add: add_member_def add_deltas_def add_seconds_def add_word_def)

lemma fold_accum:
  "ac_utime_seconds (fold (add_member sys now) ms a) =
    fold (add_seconds sys) (map p_d_utime_ticks (with_deltas ms)) (ac_utime_seconds a)"
  "ac_stime_seconds (fold (add_member sys now) ms a) =
    fold (add_seconds sys) (map p_d_stime_ticks (with_deltas ms)) (ac_stime_seconds a)"
  "ac_minor_faults (fold (add_member sys now) ms a) =
    fold add_word (map p_d_minor_faults (with_deltas ms)) (ac_minor_faults a)"
  "ac_major_faults (fold (add_member sys now) ms a) =
    fold add_word (map p_d_major_faults (with_deltas ms)) (ac_major_faults a)"
  "ac_read_bytes (fold (add_member sys now) ms a) =
    fold add_word (map p_d_read_bytes (filter p_have_io (with_deltas ms))) (ac_read_bytes a)"
  "ac_write_bytes (fold (add_member sys now) ms a) =
    fold add_word (map p_d_write_bytes (filter p_have_io (with_deltas ms))) (ac_write_bytes a)"
  "ac_vol_ctx_sw (fold (add_member sys now) ms a) =
    fold add_word (map p_d_vol_ctx_sw (filter p_have_status (with_deltas ms))) (ac_vol_ctx_sw a)"
  "ac_invol_ctx_sw (fold (add_member sys now) ms a) =
    fold add_word (map p_d_invol_ctx_sw (filter p_have_status (with_deltas ms))) (ac_invol_ctx_sw a)"
  by (induction ms arbitrary: a) (simp_all add: add_member_fields with_deltas_def)

lemma fold_last_seen: "ms \<noteq> [] \<Longrightarrow> ac_last_seen (fold (add_member sys now) ms a) = now"
  by (induction ms arbitrary: a rule: rev_induct) (simp_all add: add_member_fields)

lemma fold_add_word: "fold add_word ds v = v + sum_list ds"
  by (induction ds arbitrary: v) (simp_all add: add_word_def algebra_simps)

lemma unat_sum_list:
  fixes ds :: "u64 list"
  shows "unat v + sum_list (map unat ds) < 2 ^ 64 \<Longrightarrow> unat (v + sum_list ds) = unat v + sum_list (map unat ds)"
proof (induction ds arbitrary: v)
  case (Cons d ds)
  then have "unat v + unat d < 2 ^ 64" by simp
  then have "unat (v + d) = unat v + unat d" by (rule unat_add_no_overflow)
  with Cons.IH [of "v + d"] Cons.prems show ?case by (simp add: add.assoc)
qed simp

definition aggregator_inv :: "aggregator \<Rightarrow> bool" where
  "aggregator_inv a \<longleftrightarrow>
     gmap_wf (ag_accums a) \<and> gmap_wf (ag_names_seen a)
     \<and> (\<forall>k acc. map_of (ag_accums a) k = Some acc \<longrightarrow>
          is_float64 (ac_utime_seconds acc) \<and> is_float64 (ac_stime_seconds acc))"

lemma aggregator_new_inv: "aggregator_inv (aggregator_new sys)"
  by (simp add: aggregator_inv_def aggregator_new_def)

lemma aggregator_reset_inv: "aggregator_inv (aggregator_reset a)"
  by (simp add: aggregator_inv_def aggregator_reset_def)

lemma accum_of_float:
  "aggregator_inv a \<Longrightarrow>
    is_float64 (ac_utime_seconds (accum_of (ag_accums a) k)) \<and> is_float64 (ac_stime_seconds (accum_of (ag_accums a) k))"
  by (auto simp: aggregator_inv_def accum_of_def empty_accum_def split: option.split)

lemma prune_accums_old:
  "gmap_wf accums \<Longrightarrow> map_of (prune_accums now retention accums) k =
    (case map_of accums k of None \<Rightarrow> None
     | Some acc \<Rightarrow> if 0 < retention \<and> retention < time_sub now (ac_last_seen acc) then None else Some acc)"
  by (auto simp: prune_accums_def map_of_filter_gmap split: option.split)

lemma prune_accums_wf: "gmap_wf accums \<Longrightarrow> gmap_wf (prune_accums now retention accums)"
  by (simp add: prune_accums_def gmap_wf_filter)

text \<open>The accumulator of a key after one call.\<close>

definition next_accum :: "aggregator \<Rightarrow> instant \<Rightarrow> process list \<Rightarrow> group_key \<Rightarrow> accum option" where
  "next_accum a now ps k =
     (if members k ps = [] then map_of (ag_accums a) k
      else Some (fold (add_member (ag_system a) now) (members k ps) (accum_of (ag_accums a) k)))"

lemma apply_scan_accums:
  assumes "apply_scan clock res retention a = (a', snap)" and "aggregator_inv a"
  shows "map_of (ag_accums a') k =
      (case next_accum a (apply_now clock res) (rs_procs res) k of None \<Rightarrow> None
       | Some acc \<Rightarrow>
          if 0 < retention \<and> retention < time_sub (apply_now clock res) (ac_last_seen acc) then None else Some acc)
    \<and> gmap_wf (ag_accums a') \<and> gmap_wf (ag_names_seen a') \<and> ag_system a' = ag_system a"
  using assms(1)
proof (rule apply_scan_loop)
  fix accums names groups
  assume l: "fold (apply_process (ag_system a) (apply_now clock res)) (rs_procs res) (ag_accums a, ag_names_seen a, [])
      = (accums, names, groups)"
    and r: "ag_accums a' = prune_accums (apply_now clock res) retention accums" "ag_names_seen a' = names"
      "ag_system a' = ag_system a"
  have wf: "gmap_wf accums" "gmap_wf names"
    using apply_loop_wf [OF l] assms(2) by (simp_all add: aggregator_inv_def)
  then show "map_of (ag_accums a') k =
      (case next_accum a (apply_now clock res) (rs_procs res) k of None \<Rightarrow> None
       | Some acc \<Rightarrow>
          if 0 < retention \<and> retention < time_sub (apply_now clock res) (ac_last_seen acc) then None else Some acc)
      \<and> gmap_wf (ag_accums a') \<and> gmap_wf (ag_names_seen a') \<and> ag_system a' = ag_system a"
    unfolding r prune_accums_old [OF wf(1)] apply_loop_accums [OF l] next_accum_def
    by (simp add: prune_accums_wf)
qed

lemma next_accum_float:
  assumes "aggregator_inv a" and "next_accum a now ps k = Some acc"
  shows "is_float64 (ac_utime_seconds acc) \<and> is_float64 (ac_stime_seconds acc)"
  using assms accum_of_float [OF assms(1), of k]
  by (auto simp: next_accum_def aggregator_inv_def fold_accum seconds.fold_fits split: if_splits)

lemma next_accum_le:
  assumes "aggregator_inv a" and "map_of (ag_accums a) k = Some old" and "next_accum a now ps k = Some acc"
  shows "ac_utime_seconds old \<le> ac_utime_seconds acc \<and> ac_stime_seconds old \<le> ac_stime_seconds acc"
proof -
  have "is_float64 (ac_utime_seconds old)" "is_float64 (ac_stime_seconds old)" "accum_of (ag_accums a) k = old"
    using assms(1,2) by (auto simp: aggregator_inv_def accum_of_def)
  then show ?thesis
    using assms(2,3) by (auto simp: next_accum_def fold_accum seconds.fold_le split: if_splits)
qed

lemma aggregator_invariant_step:
  assumes a': "apply_scan clock res retention a = (a', snap)" and "aggregator_inv a"
  shows "aggregator_inv a'"
proof -
  note m = apply_scan_accums [OF a' assms(2)]
  have "is_float64 (ac_utime_seconds acc) \<and> is_float64 (ac_stime_seconds acc)"
    if "map_of (ag_accums a') k = Some acc" for k acc
    using m [of k] that next_accum_float [OF assms(2), of "apply_now clock res" "rs_procs res" k]
    by (auto split: option.split_asm if_split_asm)
  then show ?thesis using m by (simp add: aggregator_inv_def)
qed

text \<open>
  The aggregator keeps its invariant: its tables are maps and its accumulated seconds are
  representable, after every scan, whatever was read, and after a reset.
\<close>

lemma aggregator_invariant:
  assumes "aggregator_inv a"
  shows "aggregator_inv (fst (apply_scan clock res retention a)) \<and> aggregator_inv (aggregator_reset a)
    \<and> aggregator_inv (aggregator_new sys)"
  using aggregator_invariant_step [OF _ assms] aggregator_reset_inv aggregator_new_inv
  by (metis prod.exhaust_sel)

text \<open>The accumulator of a group after each of a sequence of scans.\<close>

fun accum_series :: "group_key \<Rightarrow> (instant \<times> scan_res \<times> duration) list \<Rightarrow> aggregator \<Rightarrow> accum option list" where
  "accum_series k [] a = []"
| "accum_series k ((clock, res, retention) # xs) a =
     (let a' = fst (apply_scan clock res retention a)
      in map_of (ag_accums a') k # accum_series k xs a')"

lemma accum_series_le:
  "aggregator_inv a \<Longrightarrow> map_of (ag_accums a) k = Some old \<Longrightarrow> None \<notin> set (accum_series k xs a) \<Longrightarrow>
    sorted (map (ac_utime_seconds \<circ> the) (Some old # accum_series k xs a))
    \<and> sorted (map (ac_stime_seconds \<circ> the) (Some old # accum_series k xs a))"
proof (induction k xs a arbitrary: old rule: accum_series.induct)
  case (2 k clock res retention xs a)
  obtain a' snap where a': "apply_scan clock res retention a = (a', snap)"
    by (cases "apply_scan clock res retention a")
  obtain acc where acc: "map_of (ag_accums a') k = Some acc"
    using "2.prems"(3) a' by (cases "map_of (ag_accums a') k") (auto simp: Let_def)
  have "next_accum a (apply_now clock res) (rs_procs res) k = Some acc"
    using apply_scan_accums [OF a' "2.prems"(1), of k] acc by (auto split: option.split_asm if_split_asm)
  from next_accum_le [OF "2.prems"(1,2) this]
  have "ac_utime_seconds old \<le> ac_utime_seconds acc" "ac_stime_seconds old \<le> ac_stime_seconds acc" by simp_all
  moreover have "aggregator_inv a'" using aggregator_invariant_step [OF a' "2.prems"(1)] .
  moreover have "None \<notin> set (accum_series k xs a')" using "2.prems"(3) a' by (simp add: Let_def)
  ultimately show ?case
    using "2.IH" [of a' acc] acc a' by (auto simp: Let_def intro: order_trans)
qed simp

text \<open>
  Exported counters never decrease: over any sequence of scans, with any processes appearing,
  exiting and restarting, and any retention, the accumulated CPU seconds of a group form an
  increasing sequence for as long as the group is remembered. The additions are those of 64-bit
  floating point, rounding included.
\<close>

lemma counters_never_decrease:
  assumes "aggregator_inv a" and "None \<notin> set (accum_series k xs a)"
  shows "sorted (map (ac_utime_seconds \<circ> the) (accum_series k xs a))
    \<and> sorted (map (ac_stime_seconds \<circ> the) (accum_series k xs a))"
proof (cases xs)
  case (Cons x xs')
  obtain clock res retention where x: "x = (clock, res, retention)" by (cases x)
  obtain a' snap where a': "apply_scan clock res retention a = (a', snap)"
    by (cases "apply_scan clock res retention a")
  have series: "accum_series k xs a = map_of (ag_accums a') k # accum_series k xs' a'"
    using a' by (simp add: Cons x Let_def)
  obtain acc where acc: "map_of (ag_accums a') k = Some acc"
    using assms(2) series by (cases "map_of (ag_accums a') k") auto
  show ?thesis
    using accum_series_le [OF aggregator_invariant_step [OF a' assms(1)] acc, of xs'] assms(2)
    unfolding series acc by simp
qed simp

text \<open>The accumulator a snapshot publishes for a group is the one the aggregator keeps.\<close>

lemma live_accum:
  assumes "apply_scan clock res retention a = (a', snap)" and "aggregator_inv a"
    and "map_of (sn_groups snap) k = Some s"
  shows "map_of (ag_accums a') k = Some (sa_accum s) \<and> ac_last_seen (sa_accum s) = apply_now clock res
    \<and> sa_accum s = fold (add_member (ag_system a) (apply_now clock res)) (members k (rs_procs res))
        (accum_of (ag_accums a) k)"
  using assms(1,3)
proof (rule apply_scan_group)
  fix accums ms
  let ?acc = "fold (add_member (ag_system a) (apply_now clock res)) ms (accum_of (ag_accums a) k)"
  assume ms: "ms = members k (rs_procs res)" "ms \<noteq> []"
    and s: "s = snd (finish_group accums (k, fold add_process ms (new_sample (hd ms))))"
    and acc: "map_of accums k = Some ?acc"
  have pub: "sa_accum s = ?acc" using acc by (simp add: s finish_group_def)
  have seen: "ac_last_seen ?acc = apply_now clock res" using ms(2) by (rule fold_last_seen)
  have "next_accum a (apply_now clock res) (rs_procs res) k = Some ?acc"
    using ms by (simp add: next_accum_def)
  then have "map_of (ag_accums a') k = Some ?acc"
    using apply_scan_accums [OF assms(1,2), of k] seen by (simp add: time_sub_def)
  then show ?thesis using pub seen ms(1) by simp
qed

text \<open>
  The accumulator of a live group is exactly continued: what a snapshot publishes for a group
  is what the aggregator keeps, the group is never forgotten in the scan that saw it, and, short
  of a 64-bit overflow, its byte counter is the previous one plus the deltas of exactly those
  members that have deltas and a readable \<^verbatim>\<open>io\<close>.
\<close>

lemma live_group_continues:
  assumes "apply_scan clock res retention a = (a', snap)" and "aggregator_inv a"
    and "map_of (sn_groups snap) k = Some s"
    and "ds = map p_d_read_bytes (filter (\<lambda>p. p_have_deltas p \<and> p_have_io p) (members k (rs_procs res)))"
    and "unat (ac_read_bytes (accum_of (ag_accums a) k)) + sum_list (map unat ds) < 2 ^ 64"
  shows "map_of (ag_accums a') k = Some (sa_accum s) \<and> ac_last_seen (sa_accum s) = apply_now clock res
    \<and> unat (ac_read_bytes (sa_accum s)) = unat (ac_read_bytes (accum_of (ag_accums a) k)) + sum_list (map unat ds)"
proof -
  note acc = live_accum [OF assms(1-3)]
  have "ac_read_bytes (sa_accum s) = ac_read_bytes (accum_of (ag_accums a) k) + sum_list ds"
    unfolding acc [THEN conjunct2, THEN conjunct2] fold_accum fold_add_word
    by (simp add: assms(4) with_deltas_def conj_commute)
  with acc [THEN conjunct1] acc [THEN conjunct2, THEN conjunct1] unat_sum_list [OF assms(5)]
  show ?thesis by simp
qed


section \<open>State names\<close>

lemma fold_state_names:
  "inj_on state_name (fst ` set states) \<Longrightarrow> gmap_wf states \<Longrightarrow> state_name ` (fst ` set states) \<inter> gmap_keys m = {} \<Longrightarrow>
    map_of (fold (\<lambda>(st, n) m. AList.update (state_name st) n m) states m) x =
      (case find (\<lambda>(st, n). state_name st = x) states of None \<Rightarrow> map_of m x | Some (st, n) \<Rightarrow> Some n)"
proof (induction states arbitrary: m)
  case (Cons c states)
  obtain st n where c: "c = (st, n)" by (cases c)
  have notin: "st \<notin> fst ` set states" using Cons.prems(2) c by (simp add: gmap_wf_def)
  have ne: "state_name st' \<noteq> state_name st" if "st' \<in> fst ` set states" for st'
    using Cons.prems(1) notin that c by (metis image_eqI inj_on_def insert_iff fst_conv image_insert list.simps(15))
  have "map_of (fold (\<lambda>(st, n) m. AList.update (state_name st) n m) states (AList.update (state_name st) n m)) x =
      (case find (\<lambda>(st, n). state_name st = x) states of
         None \<Rightarrow> map_of (AList.update (state_name st) n m) x | Some (st, n) \<Rightarrow> Some n)"
    using Cons.prems c ne by (intro Cons.IH) (auto simp: gmap_wf_def dom_update)
  moreover have "find (\<lambda>(st', n). state_name st' = x) states = None" if "x = state_name st"
    unfolding find_None_iff using ne that by (auto simp: image_iff split: prod.splits) (metis fst_conv)
  ultimately show ?case by (auto simp: c gmap_simps split: option.split)
qed simp

text \<open>
  The state table of the JSON view: letters that are rendered alike overwrite each other, so a
  group with dead processes under both letters shows only one of the two counts, although the
  counts per letter are right; one letter per name is shown faithfully.
\<close>

lemma state_names_collide:
  "map_of (state_names [(CHR ''X'', n), (CHR ''x'', m)]) ''dead'' = Some m
    \<and> map_of (state_names [(CHR ''x'', m), (CHR ''X'', n)]) ''dead'' = Some n
    \<and> (inj_on state_name (fst ` set states) \<longrightarrow> gmap_wf states \<longrightarrow> map_of states st = Some c \<longrightarrow>
        map_of (state_names states) (state_name st) = Some c)"
proof (intro conjI impI)
  assume inj: "inj_on state_name (fst ` set states)" and wf: "gmap_wf states" and st: "map_of states st = Some c"
  have mem: "(st, c) \<in> set states" using wf st by (simp add: gmap_wf_map_of_iff)
  have "find (\<lambda>(st', n). state_name st' = state_name st) states \<noteq> None"
    using mem by (auto simp: find_None_iff)
  then obtain st' n where f: "find (\<lambda>(st', n). state_name st' = state_name st) states = Some (st', n)"
    by (metis not_None_eq prod.exhaust_sel)
  then have "(st', n) \<in> set states" "state_name st' = state_name st"
    by (auto simp: find_Some_iff in_set_conv_nth)
  then have "st' = st" using inj mem by (auto simp: inj_on_def dest: bspec)
  with \<open>(st', n) \<in> set states\<close> wf st have "n = c" by (metis gmap_wf_map_of_iff option.inject)
  with f show "map_of (state_names states) (state_name st) = Some c"
    using fold_state_names [OF inj wf, of "[]" "state_name st"] by (simp add: state_names_def)
qed (simp_all add: state_names_def state_name_def)

section \<open>Snapshots\<close>

text \<open>What the readers of a snapshot rely on: one sample per key, under its key.\<close>

definition snapshot_wf :: "snapshot \<Rightarrow> bool" where
  "snapshot_wf snap \<longleftrightarrow>
     gmap_wf (sn_groups snap) \<and> sn_list snap = map snd (sn_groups snap)
     \<and> (\<forall>(k, s) \<in> set (sn_groups snap). sa_key s = k \<and> gmap_wf (sa_state_names s))"

lemma state_names_wf: "gmap_wf m \<Longrightarrow> gmap_wf (fold (\<lambda>(st, n) m. AList.update (state_name st) n m) states m)"
  by (induction states arbitrary: m) (auto intro: wf_intros)

lemma snapshot_wfI:
  assumes "apply_scan clock res retention a = (a', snap)"
  shows "snapshot_wf snap"
proof -
  have d: "gmap_wf (sn_groups snap)" and k: "\<forall>(k, s) \<in> set (sn_groups snap). sa_key s = k"
    using snapshot_groups [OF assms] by (simp_all add: gmap_wf_def)
  have "sn_list snap = map snd (sn_groups snap)"
    using assms by (rule apply_scan_loop)
  moreover have "gmap_wf (sa_state_names s)" if "(k, s) \<in> set (sn_groups snap)" for k s
  proof -
    have "map_of (sn_groups snap) k = Some s" using that d by (simp add: gmap_wf_map_of_iff)
    with assms show ?thesis
      by (rule apply_scan_group) (simp add: finish_group_def state_names_def state_names_wf)
  qed
  ultimately show ?thesis using d k by (auto simp: snapshot_wf_def)
qed

lemma snapshot_sample:
  assumes "snapshot_wf snap" and "s \<in> set (sn_list snap)"
  shows "map_of (sn_groups snap) (sa_key s) = Some s"
  using assms by (auto simp: snapshot_wf_def gmap_wf_map_of_iff)

end
