(* ===== verification/Examples.thy ===== *)
theory Examples
  imports ScanProps AggregateProps "HOL-Library.Code_Target_Nat"
begin

text \<open>
  Concrete inputs at which the hypotheses of the properties hold: a machine with two listed processes,
  one of them unreadable, an open filter, a namer that falls back to the process name, and three
  processes of two groups.
\<close>

section \<open>The example machine\<close>

definition ex_sys :: system where
  "ex_sys = \<lparr>sys_clock_ticks = 100, sys_page_size = 4096, sys_boot_time = 1000,
     sys_proc_path = ''/proc'', sys_smaps_rollup = True\<rparr>"

definition denied_file :: os_file where "denied_file = OpenErr (Errno EACCES)"

definition ex_stat :: "string \<Rightarrow> string" where
  "ex_stat utime = ''7 (sshd) S 1 7 7 0 -1 4194560 10 0 2 0 '' @ utime @ '' 5 0 0 20 0 1 0 300 4096 2 18446744073709551615''"

definition ex_files :: "string \<Rightarrow> proc_files" where
  "ex_files utime = \<lparr>pf_stat = File (ex_stat utime) None, pf_cmdline = File (''sshd'' @ [nul]) None,
     pf_status = denied_file, pf_exe = Inl (Errno EACCES), pf_statm = File ''10 2 1 1 0 3 0'' None,
     pf_io = denied_file, pf_fd = Dir [''0'', ''1''] None, pf_limits = denied_file,
     pf_smaps = denied_file, pf_smaps_rollup = denied_file\<rparr>"

definition unreadable_files :: proc_files where
  "unreadable_files = \<lparr>pf_stat = denied_file, pf_cmdline = denied_file, pf_status = denied_file,
     pf_exe = Inl (Errno EACCES), pf_statm = denied_file, pf_io = denied_file,
     pf_fd = DirOpenErr (Errno EACCES), pf_limits = denied_file, pf_smaps = denied_file,
     pf_smaps_rollup = denied_file\<rparr>"

definition ex_filter :: proc_filter where
  "ex_filter = \<lparr>f_ignore_kernel = False, f_ignore_comm = [], f_ignore_prefix = [], f_ignore_regex = [],
     f_ignore_cmd = [], f_ignore_users = [], f_include_only = [], f_needs_cmdline = False\<rparr>"

definition ex_namer :: namer where "ex_namer = \<lparr>n_rules = [], n_fallback = ''comm''\<rparr>"

definition ex_cfg :: config where "ex_cfg = normalise default_config"

definition ex_env :: "bool \<Rightarrow> scan_env" where
  "ex_env scheduled = \<lparr>se_cfg = ex_cfg, se_filter = ex_filter, se_namer = ex_namer, se_system = ex_sys,
     se_lookup_id = (\<lambda>_. None), se_do_fds = scheduled, se_do_smaps = scheduled\<rparr>"

definition ex_world :: "string \<Rightarrow> scan_world" where
  "ex_world utime = \<lparr>w_proc = Dir [''7'', ''self'', ''8''] None,
     w_files = (\<lambda>pid. if pid = 7 then ex_files utime else unreadable_files),
     w_ctx = (\<lambda>_. None), w_sleep = (\<lambda>_. None), w_start = 0, w_elapsed = 1000,
     w_cpu_before = None, w_cpu_after = None\<rparr>"

definition ex_scanner :: scanner where "ex_scanner = scanner_new []"

definition ex_scan :: "scanner \<times> (go_error + scan_res)" where
  "ex_scan = scan ex_sys (\<lambda>_. None) ex_cfg ex_filter ex_namer (ex_world ''100'') ex_scanner"

lemma ex_scanner_inv: "scanner_inv ex_scanner"
  by (simp add: ex_scanner_def scanner_new_inv)

lemma ex_scanner_gen: "unat (generation (sc_state ex_scanner)) = 0"
  by (simp add: ex_scanner_def scanner_new_def new_state_map_def generation_def)

lemma ex_pids: "list_pids (w_proc (ex_world utime)) = Inr [7, 8]"
proof -
  have "list_pids (Dir [''7'', ''self'', ''8''] None) = Inr [7, 8]" by code_simp
  then show ?thesis by (simp add: ex_world_def)
qed

lemma ex_scan_result:
  "case ex_scan of (s', Inr r) \<Rightarrow> rs_total r = 2 \<and> rs_denied r = 1 \<and> rs_scanned r = 1 | _ \<Rightarrow> False"
  by code_simp

lemma ex_scan_Inr:
  obtains s' r where "scan ex_sys (\<lambda>_. None) ex_cfg ex_filter ex_namer (ex_world ''100'') ex_scanner = (s', Inr r)"
    "rs_total r = 2" "rs_scanned r = 1"
  using ex_scan_result unfolding ex_scan_def by (auto split: prod.split_asm sum.split_asm)

definition ex_compiler :: compiler where "ex_compiler = (\<lambda>p. Inr \<lparr>rx_prog = [], rx_names = []\<rparr>)"

section \<open>Groups\<close>

definition ex_process :: "string \<Rightarrow> u64 \<Rightarrow> process" where
  "ex_process name ticks =
     (base_process ex_sys 7 \<lparr>st_pid = 7, st_comm = name, st_state = CHR ''S'', st_ppid = 1, st_minor_faults = 1,
        st_major_faults = 0, st_utime_ticks = ticks, st_stime_ticks = 0, st_threads = 2, st_start_ticks = 300,
        st_vsize_bytes = 4096, st_rss_pages = 2\<rparr> None 0 ''root'' name)
     \<lparr>p_have_deltas := True, p_d_utime_ticks := ticks, p_have_io := True, p_d_read_bytes := 100,
      p_have_fds := True, p_open_fds := 3, p_max_fds := 6, p_fd_ratio := 1 / 2\<rparr>"

definition ex_res :: "process list \<Rightarrow> scan_res" where
  "ex_res ps = (empty_result 5 1 2)\<lparr>rs_procs := ps\<rparr>"

definition ex_procs :: "process list" where
  "ex_procs = [ex_process ''sshd'' 50, ex_process ''cron'' 1, ex_process ''sshd'' 25]"

definition ex_key :: group_key where "ex_key = \<lparr>k_name = ''sshd'', k_user = ''root''\<rparr>"

definition ex_agg :: aggregator where "ex_agg = aggregator_new ex_sys"

lemma ex_agg_inv: "aggregator_inv ex_agg"
  by (simp add: ex_agg_def aggregator_new_inv)

lemma ex_members: "members ex_key (rs_procs (ex_res ex_procs)) = [ex_process ''sshd'' 50, ex_process ''sshd'' 25]"
  by (simp add: ex_res_def ex_procs_def ex_key_def key_of_def ex_process_def base_process_def)

lemma apply_scan_live:
  assumes a: "apply_scan clock res retention a = (a', snap)" and "aggregator_inv a"
    and ne: "members k (rs_procs res) \<noteq> []"
  shows "(\<exists>s. map_of (sn_groups snap) k = Some s) \<and> (\<exists>old. map_of (ag_accums a') k = Some old
    \<and> ac_last_seen old = apply_now clock res)"
proof -
  have "\<exists>s. map_of (sn_groups snap) k = Some s"
    using a
  proof (rule apply_scan_loop)
    fix accums names groups
    assume l: "fold (apply_process (ag_system a) (apply_now clock res)) (rs_procs res) (ag_accums a, ag_names_seen a, [])
        = (accums, names, groups)" and g: "sn_groups snap = map (finish_group accums) groups"
    show ?thesis using apply_loop_groups [OF l, of k] ne by (simp add: g map_of_finish)
  qed
  moreover have "\<exists>old. map_of (ag_accums a') k = Some old \<and> ac_last_seen old = apply_now clock res"
    using apply_scan_accums [OF a assms(2), of k] ne
    by (simp add: next_accum_def fold_last_seen time_sub_def)
  ultimately show ?thesis by blast
qed

lemma ex_apply_Some:
  obtains a' snap s old where "apply_scan 0 (ex_res ex_procs) 60 ex_agg = (a', snap)"
    "map_of (sn_groups snap) ex_key = Some s" "map_of (ag_accums a') ex_key = Some old"
proof -
  obtain a' snap where a: "apply_scan 0 (ex_res ex_procs) 60 ex_agg = (a', snap)"
    by (cases "apply_scan 0 (ex_res ex_procs) 60 ex_agg")
  from apply_scan_live [OF a ex_agg_inv, of ex_key] that a show thesis by (auto simp: ex_members)
qed

end
