(* ===== verification/ScanReads.thy ===== *)
theory ScanReads
  imports ScanProps
begin

text \<open>
  Properties of the reading of one process: identity and PID reuse, the deltas and their sum over
  a sequence of scans, the reads that are skipped, and the cached figures.
\<close>

section \<open>Rendering a UID\<close>

lemma itoa_loop_format: "0 < n \<Longrightarrow> itoa_loop n buf = format_uint n @ buf"
proof (induction n arbitrary: buf rule: less_induct)
  case (less n)
  show ?case
  proof (cases "n < 10")
    case True
    with less.prems show ?thesis
      by (simp add: itoa_loop.simps [of n] itoa_loop.simps [of 0] format_uint.simps [of n])
  next
    case False
    then have "itoa_loop (n div 10) (digit_char (n mod 10) # buf) = format_uint (n div 10) @ digit_char (n mod 10) # buf"
      by (intro less.IH) simp_all
    with False less.prems show ?thesis
      by (simp add: itoa_loop.simps [of n] format_uint.simps [of n])
  qed
qed

lemma digit_char_0: "digit_char 0 = CHR ''0''"
proof -
  have "(of_char (digit_char 0) :: nat) = of_char (CHR ''0'')"
    by (simp add: digit_char_def of_char_of)
  then show ?thesis by (simp only: of_char_eq_iff)
qed

lemma itoa_format: "0 \<le> n \<Longrightarrow> itoa n = format_uint (nat n)"
  by (auto simp: itoa_def itoa_loop_format format_uint.simps [of 0] digit_char_0)

text \<open>
  The hand-written integer printing agrees with the standard one on every UID, and so the two
  places that render a UID without a name, the scanner and the cache of user names, agree: a
  process does not move to another group when its user comes from the other one.
\<close>

lemma uid_string_agrees:
  "uid_string uid = ''uid:'' @ format_uint (unat uid)
    \<and> (lookup_id (format_uint (unat uid)) = None \<longrightarrow> fst (user_name lookup_id uid []) = uid_string uid)"
  by (simp add: uid_string_def itoa_format user_name_def Let_def)

section \<open>PID reuse\<close>

lemma readings_identity:
  assumes "readings env prev pf p r = Inr ((q, io), r')"
  shows "same_identity p q"
  using assms
proof (cases rule: readings_cases)
  case (1 p1 r1 p2 r2 p3 r3)
  have "same_identity p1 p2"
    using io_step_process [OF 1(2)] by (cases io) (simp_all add: same_identity_def)
  with statm_step_process [OF 1(1)] fd_step_process [OF 1(3)] smaps_step_process [OF 1(4)]
  show ?thesis by (blast intro: same_identity_trans)
qed

lemma lookup_twice:
  "sm_lookup p t m = (m', prev) \<Longrightarrow> sm_lookup p t m' = (m', prev)"
  by (auto simp: sm_lookup_cases sm_entry_def gmap_simps split: option.splits if_splits)

text \<open>
  C6. A process that got the PID of another one is a new process: when the start time read does
  not match the entry, the reading and its whole effect are those of a scanner that has no entry
  for the PID, so neither the name, the user, the descriptor figures nor the counters of the old
  process can leak into the new one, and no deltas are reported.
\<close>

theorem pid_reuse_is_new:
  assumes "read_stat (pf_stat pf) = Inr st" and "sm_entry (sc_state s) pid = Some old"
    and "ps_start_ticks old \<noteq> st_start_ticks st"
  shows "read_process env pid pf s r =
      read_process env pid pf (s\<lparr>sc_state := (sc_state s)\<lparr>sm_m := AList.delete pid (sm_m (sc_state s))\<rparr>\<rparr>) r
    \<and> (\<forall>p. snd (read_process env pid pf s r) = Some p \<longrightarrow> \<not> p_have_deltas p)"
proof
  have lk: "sm_lookup pid (st_start_ticks st) (sc_state s) =
      ((sc_state s)\<lparr>sm_m := AList.delete pid (sm_m (sc_state s))\<rparr>, None)"
    using assms(2,3) by (simp add: sm_lookup_cases)
  have upd: "(s\<lparr>sc_state := a\<rparr>)\<lparr>sc_state := b\<rparr> = s\<lparr>sc_state := b\<rparr>"
    "(s\<lparr>sc_state := a\<rparr>)\<lparr>sc_state := b, sc_users := us\<rparr> = s\<lparr>sc_state := b, sc_users := us\<rparr>"
    "sc_state (s\<lparr>sc_state := a\<rparr>) = a" "sc_users (s\<lparr>sc_state := a\<rparr>) = sc_users s" for a b us
    by simp_all
  show "read_process env pid pf s r =
      read_process env pid pf (s\<lparr>sc_state := (sc_state s)\<lparr>sm_m := AList.delete pid (sm_m (sc_state s))\<rparr>\<rparr>) r"
    unfolding read_process_def assms(1) sum.case upd lk lookup_twice [OF lk] prod.case ..
  show "\<forall>p. snd (read_process env pid pf s r) = Some p \<longrightarrow> \<not> p_have_deltas p"
  proof (intro allI impI)
    fix p
    assume "snd (read_process env pid pf s r) = Some p"
    then obtain s' r' where "read_process env pid pf s r = ((s', r'), Some p)"
      by (metis prod.exhaust_sel snd_conv)
    then show "\<not> p_have_deltas p"
    proof (cases rule: read_process_cases)
      case (kept st' m prev cmdline cr r1 uid user status users r2 q io)
      then have "prev = None" using lk assms(1) by simp
      with kept show ?thesis
        using readings_identity [OF kept(6)] by (simp add: finish_def base_process_def same_identity_def)
    qed simp_all
  qed
qed

section \<open>What a returned process and its entry hold\<close>

lemma kept_entry:
  assumes "read_process env pid pf s r = ((s', r'), Some p)"
  obtains st cur prev where "read_stat (pf_stat pf) = Inr st"
    "prev = (case sm_entry (sc_state s) pid of None \<Rightarrow> None
       | Some old \<Rightarrow> if ps_start_ticks old = st_start_ticks st then Some old else None)"
    "sm_entry (sc_state s') pid = Some (cur\<lparr>ps_generation := generation (sc_state s)\<rparr>)"
    "ps_start_ticks cur = st_start_ticks st" "ps_utime_ticks cur = st_utime_ticks st"
    "ps_stime_ticks cur = st_stime_ticks st" "p_pid p = pid"
    "case prev of None \<Rightarrow> \<not> p_have_deltas p
     | Some old \<Rightarrow> p_have_deltas p
         \<and> p_d_utime_ticks p = delta (ps_utime_ticks cur) (ps_utime_ticks old)
         \<and> p_d_stime_ticks p = delta (ps_stime_ticks cur) (ps_stime_ticks old)
         \<and> p_d_read_bytes p = delta (ps_read_bytes cur) (ps_read_bytes old)
         \<and> p_d_write_bytes p = delta (ps_write_bytes cur) (ps_write_bytes old)"
  using assms
proof (cases rule: read_process_cases)
  case (kept st m prev cmdline cr r1 uid user status users r2 q io)
  let ?cur = "new_pid_state st status io q"
  have id: "same_identity (base_process (se_system env) pid st status uid (final_user user uid)
      (name_step env prev pf st cmdline)) q"
    using kept(6) by (rule readings_identity)
  have p: "p = fst (finish pid prev ?cur q m)" using kept(8) by simp
  have prev: "prev = (case sm_entry (sc_state s) pid of None \<Rightarrow> None
       | Some old \<Rightarrow> if ps_start_ticks old = st_start_ticks st then Some old else None)"
    using sm.lookup_result [of pid "st_start_ticks st" "sc_state s"] kept(2) by simp
  have gen: "generation m = generation (sc_state s)"
    using sm.gen_lookup [of pid "st_start_ticks st" "sc_state s"] kept(2) by simp
  show thesis
  proof (rule that [OF kept(1) prev, of ?cur])
    show "sm_entry (sc_state s') pid = Some (?cur\<lparr>ps_generation := generation (sc_state s)\<rparr>)"
      using kept(7) gen by (simp add: sm.entries)
    show "p_pid p = pid"
      using id p by (cases prev) (simp_all add: finish_def compute_deltas_def same_identity_def base_process_def)
    show "case prev of None \<Rightarrow> \<not> p_have_deltas p
     | Some old \<Rightarrow> p_have_deltas p
         \<and> p_d_utime_ticks p = delta (ps_utime_ticks ?cur) (ps_utime_ticks old)
         \<and> p_d_stime_ticks p = delta (ps_stime_ticks ?cur) (ps_stime_ticks old)
         \<and> p_d_read_bytes p = delta (ps_read_bytes ?cur) (ps_read_bytes old)
         \<and> p_d_write_bytes p = delta (ps_write_bytes ?cur) (ps_write_bytes old)"
      using id p by (cases prev) (simp_all add: finish_def compute_deltas_def same_identity_def base_process_def)
  qed (simp_all add: new_pid_state_def)
qed simp_all

section \<open>One process through a scan\<close>

lemma read_process_other:
  assumes "read_process env pid pf s r = ((s', r'), po)" and "q \<noteq> pid"
  shows "sm_entry (sc_state s') q = sm_entry (sc_state s) q"
proof -
  obtain t cur where "sc_state s' \<in> {sc_state s, fst (sm_lookup pid t (sc_state s)),
      sm_touch pid (fst (sm_lookup pid t (sc_state s))), sm_put pid cur (fst (sm_lookup pid t (sc_state s)))}"
    using read_process_store [OF assms(1)] by blast
  with assms(2) show ?thesis by (auto simp: sm.entries)
qed

lemma read_batch_other:
  "read_batch env files pids (s, r) = (s', r') \<Longrightarrow> q \<notin> set pids \<Longrightarrow>
    sm_entry (sc_state s') q = sm_entry (sc_state s) q"
proof (induction pids arbitrary: s r)
  case (Cons pid pids)
  obtain s1 r1 po where rp: "read_process env pid (files pid) s r = ((s1, r1), po)"
    by (metis prod.exhaust_sel)
  obtain r2 where "read_batch env files pids (s1, r2) = (s', r')"
    using Cons.prems(1) rp by (cases po) auto
  from Cons.IH [OF this] Cons.prems(2) read_process_other [OF rp, of q] show ?case by simp
qed simp

lemma read_batch_procs:
  "read_batch env files pids (s, r) = (s', r') \<Longrightarrow>
    \<exists>ps. rs_procs r' = rs_procs r @ ps \<and> p_pid ` set ps \<subseteq> set pids"
proof (induction pids arbitrary: s r)
  case (Cons pid pids)
  obtain s1 r1 po where rp: "read_process env pid (files pid) s r = ((s1, r1), po)"
    by (metis prod.exhaust_sel)
  note fr = read_process_frame [OF rp]
  show ?case
  proof (cases po)
    case None
    with Cons.prems rp have "read_batch env files pids (s1, r1) = (s', r')" by simp
    from Cons.IH [OF this] fr show ?thesis by auto
  next
    case (Some p)
    then have "p_pid p = pid" using rp by (auto elim: kept_entry)
    from Some Cons.prems rp have "read_batch env files pids
      (s1, r1\<lparr>rs_procs := rs_procs r1 @ [p], rs_scanned := rs_scanned r1 + 1\<rparr>) = (s', r')" by simp
    from Cons.IH [OF this] fr obtain ps where
      "rs_procs r' = rs_procs r @ p # ps" "p_pid ` set ps \<subseteq> set pids" by auto
    with \<open>p_pid p = pid\<close> show ?thesis by (intro exI [of _ "p # ps"]) auto
  qed
qed simp

lemma scan_of_process:
  assumes "scan sys lookup_id cfg f n w s = (s', Inr r)" and "scanner_inv s"
    and "unat (generation (sc_state s)) + 1 < 2 ^ 64"
    and "\<forall>pids. list_pids (w_proc w) = Inr pids \<longrightarrow> distinct pids"
    and "p \<in> set (rs_procs r)"
  obtains s1 r1 s2 r2 where
    "read_process (env_of sys lookup_id cfg f n s) (p_pid p) (w_files w (p_pid p)) s1 r1 = ((s2, r2), Some p)"
    "sm_entry (sc_state s1) (p_pid p) = sm_entry (sc_state s) (p_pid p)"
    "sm_entry (sc_state s') (p_pid p) = sm_entry (sc_state s2) (p_pid p)"
  using assms(1)
proof (cases rule: scan_cases)
  case (completed pids s3 r3)
  let ?env = "env_of sys lookup_id cfg f n s" and ?pid = "p_pid p"
  have procs: "rs_procs r = rs_procs r3"
    using completed(4) by (simp add: end_scan_def Let_def case_prod_unfold)
  have "p_pid ` set (rs_procs r3) \<subseteq> set pids"
    using read_batch_procs [OF completed(2)] by (auto simp: first_result_def empty_result_def)
  with assms(5) procs have "?pid \<in> set pids" by auto
  then obtain xs ys where pids: "pids = xs @ ?pid # ys" by (auto simp: in_set_conv_decomp)
  then have out: "?pid \<notin> set xs" "?pid \<notin> set ys" using assms(4) completed(1) by auto
  obtain s1 r1 where rx: "read_batch ?env (w_files w) xs (begin_scan s, first_result w s (length pids)) = (s1, r1)"
    by (metis prod.exhaust_sel)
  obtain s2 r2 po where rp: "read_process ?env ?pid (w_files w ?pid) s1 r1 = ((s2, r2), po)"
    by (metis prod.exhaust_sel)
  define r2' where "r2' = (case po of None \<Rightarrow> r2
    | Some q \<Rightarrow> r2\<lparr>rs_procs := rs_procs r2 @ [q], rs_scanned := rs_scanned r2 + 1\<rparr>)"
  have ry: "read_batch ?env (w_files w) ys (s2, r2') = (s3, r3)"
    using completed(2) rx rp unfolding pids read_batch_append r2'_def by (cases po) simp_all
  have "p_pid ` set (rs_procs r1) \<subseteq> set xs"
    using read_batch_procs [OF rx] by (auto simp: first_result_def empty_result_def)
  then have "p \<notin> set (rs_procs r1)" using out(1) by auto
  moreover obtain ps where ps: "rs_procs r3 = rs_procs r2' @ ps" "p_pid ` set ps \<subseteq> set ys"
    using read_batch_procs [OF ry] by blast
  moreover have "p \<notin> set ps" using ps(2) out(2) by auto
  ultimately have po: "po = Some p"
    using assms(5) procs read_process_frame [OF rp] r2'_def by (cases po) auto
  have e1: "sm_entry (sc_state s1) ?pid = sm_entry (sc_state s) ?pid"
    using read_batch_other [OF rx out(1)] by (simp add: begin_scan_def sm.entries)
  have e3: "sm_entry (sc_state s3) ?pid = sm_entry (sc_state s2) ?pid"
    using read_batch_other [OF ry out(2)] .
  have b: "scan_inv {} (sc_state (begin_scan s))" "all_ok (sc_state (begin_scan s))"
    "gmap_wf (sc_users (begin_scan s))" using scan_inv_begin [OF assms(2,3)] by simp_all
  have r0: "\<forall>p \<in> set (rs_procs (first_result w s k)). process_ok p" for k
    by (simp add: first_result_def empty_result_def)
  note i1 = read_batch_inv [OF rx b r0] and i3 = read_batch_inv [OF completed(2) b r0]
  have wf: "sm_wf (sc_state s3)" using i3 by (simp add: scan_inv_def)
  obtain cur where "sm_entry (sc_state s2) ?pid = Some (cur\<lparr>ps_generation := generation (sc_state s1)\<rparr>)"
    using rp [unfolded po] by (elim kept_entry) blast
  then have "sm_entry (fst (sm_prune (sc_state s3))) ?pid = sm_entry (sc_state s2) ?pid"
    using e3 i1 i3 by (simp add: sm.entry_prune [OF wf])
  moreover have "sc_state s' = fst (sm_prune (sc_state s3))"
    using completed(3) by (simp add: end_scan_def Let_def case_prod_unfold)
  ultimately show thesis using that rp po e1 by simp
qed simp_all

section \<open>A process over a sequence of scans\<close>

text \<open>
  What a sequence of scans, each with its own configuration and world, shows of one PID: the
  reading of \<^verbatim>\<open>stat\<close> and the process returned. \<^const>\<open>None\<close> when a scan fails or does not return it.
\<close>

type_synonym scan_input = "config \<times> proc_filter \<times> namer \<times> scan_world"

fun observe ::
  "system \<Rightarrow> (string \<Rightarrow> string option) \<Rightarrow> go_int \<Rightarrow> scan_input list \<Rightarrow> scanner \<Rightarrow> (stat \<times> process) list option" where
  "observe sys lookup_id pid [] s = Some []"
| "observe sys lookup_id pid ((cfg, f, n, w) # cs) s =
     (case scan sys lookup_id cfg f n w s of
        (s', Inl e) \<Rightarrow> None
      | (s', Inr r) \<Rightarrow>
          (case (read_stat (pf_stat (w_files w pid)), find (\<lambda>p. p_pid p = pid) (rs_procs r),
              observe sys lookup_id pid cs s') of
             (Inr st, Some p, Some obs) \<Rightarrow> Some ((st, p) # obs)
           | _ \<Rightarrow> None))"

lemma observe_Cons:
  assumes "observe sys lookup_id pid ((cfg, f, n, w) # cs) s = Some obs"
  obtains st p obs' s' r where "obs = (st, p) # obs'" "scan sys lookup_id cfg f n w s = (s', Inr r)"
    "read_stat (pf_stat (w_files w pid)) = Inr st" "p \<in> set (rs_procs r)" "p_pid p = pid"
    "observe sys lookup_id pid cs s' = Some obs'"
  using assms by (auto split: prod.split_asm sum.split_asm option.split_asm simp: find_Some_iff)

lemma scan_generation:
  assumes "scan sys lookup_id cfg f n w s = (s', Inr r)" and "scanner_inv s"
    and "unat (generation (sc_state s)) + 1 < 2 ^ 64"
  shows "generation (sc_state s') = generation (sc_state s) + 1 \<and> scanner_inv s'"
  using assms(1)
proof (cases rule: scan_cases)
  case (completed pids s1 r1)
  have b: "scan_inv {} (sc_state (begin_scan s))" "all_ok (sc_state (begin_scan s))"
    "gmap_wf (sc_users (begin_scan s))" using scan_inv_begin [OF assms(2,3)] by simp_all
  have r0: "\<forall>p \<in> set (rs_procs (first_result w s k)). process_ok p" for k
    by (simp add: first_result_def empty_result_def)
  note i = read_batch_inv [OF completed(2) b r0]
  then have "scanner_inv s1" by (blast intro: scanner_inv_of_run)
  with end_scan_inv [of s1] completed(3) i show ?thesis
    by (simp add: end_scan_def Let_def case_prod_unfold sm.gens begin_scan_def)
qed simp_all

text \<open>The entry after a scan that returned the process holds its reading.\<close>

lemma scan_entry:
  assumes "scan sys lookup_id cfg f n w s = (s', Inr r)" and "scanner_inv s"
    and "unat (generation (sc_state s)) + 1 < 2 ^ 64"
    and "\<forall>pids. list_pids (w_proc w) = Inr pids \<longrightarrow> distinct pids"
    and "p \<in> set (rs_procs r)" and "p_pid p = pid" and "read_stat (pf_stat (w_files w pid)) = Inr st"
  shows "(\<exists>e. sm_entry (sc_state s') pid = Some e \<and> ps_start_ticks e = st_start_ticks st
        \<and> ps_utime_ticks e = st_utime_ticks st)
    \<and> (\<forall>old. sm_entry (sc_state s) pid = Some old \<and> ps_start_ticks old = st_start_ticks st \<longrightarrow>
        p_have_deltas p \<and> p_d_utime_ticks p = delta (st_utime_ticks st) (ps_utime_ticks old))"
proof -
  obtain s1 r1 s2 r2 where
    rp: "read_process (env_of sys lookup_id cfg f n s) pid (w_files w pid) s1 r1 = ((s2, r2), Some p)"
    and e1: "sm_entry (sc_state s1) pid = sm_entry (sc_state s) pid"
    and e2: "sm_entry (sc_state s') pid = sm_entry (sc_state s2) pid"
    using scan_of_process [OF assms(1-5)] assms(6) by blast
  show ?thesis
    using rp
  proof (rule kept_entry)
    fix st' cur prev
    assume st': "read_stat (pf_stat (w_files w pid)) = Inr st'"
      and prev: "prev = (case sm_entry (sc_state s1) pid of None \<Rightarrow> None
       | Some old \<Rightarrow> if ps_start_ticks old = st_start_ticks st' then Some old else None)"
      and cur: "sm_entry (sc_state s2) pid = Some (cur\<lparr>ps_generation := generation (sc_state s1)\<rparr>)"
        "ps_start_ticks cur = st_start_ticks st'" "ps_utime_ticks cur = st_utime_ticks st'"
      and d: "case prev of None \<Rightarrow> \<not> p_have_deltas p
       | Some old \<Rightarrow> p_have_deltas p
         \<and> p_d_utime_ticks p = delta (ps_utime_ticks cur) (ps_utime_ticks old)
         \<and> p_d_stime_ticks p = delta (ps_stime_ticks cur) (ps_stime_ticks old)
         \<and> p_d_read_bytes p = delta (ps_read_bytes cur) (ps_read_bytes old)
         \<and> p_d_write_bytes p = delta (ps_write_bytes cur) (ps_write_bytes old)"
    have "st' = st" using st' assms(7) by simp
    with prev cur d e1 e2 show ?thesis by (auto split: option.split_asm)
  qed
qed

lemma observe_deltas:
  assumes "observe sys lookup_id pid cs s = Some obs" and "scanner_inv s"
    and "unat (generation (sc_state s)) + length cs < 2 ^ 64"
    and "\<forall>(cfg, f, n, w) \<in> set cs. \<forall>pids. list_pids (w_proc w) = Inr pids \<longrightarrow> distinct pids"
    and "sm_entry (sc_state s) pid = Some e" and "\<forall>(st, p) \<in> set obs. st_start_ticks st = ps_start_ticks e"
  shows "(\<forall>(st, p) \<in> set obs. p_have_deltas p)
    \<and> (\<Sum>(st, p) \<leftarrow> obs. unat (p_d_utime_ticks p)) = deltas (ps_utime_ticks e) (map (st_utime_ticks \<circ> fst) obs)"
  using assms
proof (induction cs arbitrary: s obs e)
  case (Cons c cs)
  obtain cfg f n w where c: "c = (cfg, f, n, w)" by (cases c)
  obtain st p obs' s' r where o: "obs = (st, p) # obs'" "scan sys lookup_id cfg f n w s = (s', Inr r)"
    "read_stat (pf_stat (w_files w pid)) = Inr st" "p \<in> set (rs_procs r)" "p_pid p = pid"
    "observe sys lookup_id pid cs s' = Some obs'"
    using Cons.prems(1) unfolding c by (rule observe_Cons)
  have gen: "unat (generation (sc_state s)) + 1 < 2 ^ 64" using Cons.prems(3) by simp
  have dist: "\<forall>pids. list_pids (w_proc w) = Inr pids \<longrightarrow> distinct pids" using Cons.prems(4) c by auto
  note se = scan_entry [OF o(2) Cons.prems(2) gen dist o(4,5,3)]
  obtain e' where e': "sm_entry (sc_state s') pid = Some e'" "ps_start_ticks e' = st_start_ticks st"
    "ps_utime_ticks e' = st_utime_ticks st" using se by blast
  have d: "p_have_deltas p" "p_d_utime_ticks p = delta (st_utime_ticks st) (ps_utime_ticks e)"
    using se Cons.prems(5,6) o(1) by auto
  have "generation (sc_state s') = generation (sc_state s) + 1" "scanner_inv s'"
    using scan_generation [OF o(2) Cons.prems(2) gen] by simp_all
  then have "unat (generation (sc_state s')) + length cs < 2 ^ 64"
    using u64_suc(1) [OF gen] Cons.prems(3) by simp
  moreover have "\<forall>(st, p) \<in> set obs'. st_start_ticks st = ps_start_ticks e'"
    using Cons.prems(6) o(1) e'(2) by auto
  ultimately have "(\<forall>(st, p) \<in> set obs'. p_have_deltas p)
    \<and> (\<Sum>(st, p) \<leftarrow> obs'. unat (p_d_utime_ticks p)) = deltas (ps_utime_ticks e') (map (st_utime_ticks \<circ> fst) obs')"
    using Cons.IH [OF o(6) \<open>scanner_inv s'\<close> _ _ e'(1)] Cons.prems(4) by (auto simp: comp_def)
  with d e'(3) o(1) show ?case by (simp add: comp_def)
qed simp


end
