(* ===== verification/ScanCache.thy ===== *)
theory ScanCache
  imports ScanReads
begin

text \<open>
  Properties of what a scan does not read and of what it remembers instead: the reads that are
  skipped, the figures that are carried from scan to scan, and the cases in which a failed read
  is remembered as if it had succeeded.
\<close>

section \<open>Reads on demand\<close>

lemma pf_sel:
  "pf_stat (pf\<lparr>pf_fd := a, pf_limits := b\<rparr>) = pf_stat pf"
  "pf_cmdline (pf\<lparr>pf_fd := a, pf_limits := b\<rparr>) = pf_cmdline pf"
  "pf_status (pf\<lparr>pf_fd := a, pf_limits := b\<rparr>) = pf_status pf"
  "pf_exe (pf\<lparr>pf_fd := a, pf_limits := b\<rparr>) = pf_exe pf"
  "pf_statm (pf\<lparr>pf_fd := a, pf_limits := b\<rparr>) = pf_statm pf"
  "pf_io (pf\<lparr>pf_fd := a, pf_limits := b\<rparr>) = pf_io pf"
  "pf_smaps (pf\<lparr>pf_fd := a, pf_limits := b\<rparr>) = pf_smaps pf"
  "pf_smaps_rollup (pf\<lparr>pf_fd := a, pf_limits := b\<rparr>) = pf_smaps_rollup pf"
  "pf_stat (pf\<lparr>pf_smaps := c, pf_smaps_rollup := d\<rparr>) = pf_stat pf"
  "pf_cmdline (pf\<lparr>pf_smaps := c, pf_smaps_rollup := d\<rparr>) = pf_cmdline pf"
  "pf_status (pf\<lparr>pf_smaps := c, pf_smaps_rollup := d\<rparr>) = pf_status pf"
  "pf_exe (pf\<lparr>pf_smaps := c, pf_smaps_rollup := d\<rparr>) = pf_exe pf"
  "pf_statm (pf\<lparr>pf_smaps := c, pf_smaps_rollup := d\<rparr>) = pf_statm pf"
  "pf_io (pf\<lparr>pf_smaps := c, pf_smaps_rollup := d\<rparr>) = pf_io pf"
  "pf_fd (pf\<lparr>pf_smaps := c, pf_smaps_rollup := d\<rparr>) = pf_fd pf"
  "pf_limits (pf\<lparr>pf_smaps := c, pf_smaps_rollup := d\<rparr>) = pf_limits pf"
  "pf_stat (pf\<lparr>pf_cmdline := u, pf_exe := v, pf_status := x\<rparr>) = pf_stat pf"
  "pf_statm (pf\<lparr>pf_cmdline := u, pf_exe := v, pf_status := x\<rparr>) = pf_statm pf"
  "pf_io (pf\<lparr>pf_cmdline := u, pf_exe := v, pf_status := x\<rparr>) = pf_io pf"
  "pf_fd (pf\<lparr>pf_cmdline := u, pf_exe := v, pf_status := x\<rparr>) = pf_fd pf"
  "pf_limits (pf\<lparr>pf_cmdline := u, pf_exe := v, pf_status := x\<rparr>) = pf_limits pf"
  "pf_smaps (pf\<lparr>pf_cmdline := u, pf_exe := v, pf_status := x\<rparr>) = pf_smaps pf"
  "pf_smaps_rollup (pf\<lparr>pf_cmdline := u, pf_exe := v, pf_status := x\<rparr>) = pf_smaps_rollup pf"
  by simp_all

lemmas step_defs = statm_step_def cmdline_step_def status_step_def name_step_def io_step_def
  fd_step_def smaps_step_def

lemma steps_other_files:
  "statm_step sys (pf\<lparr>pf_fd := a, pf_limits := b\<rparr>) p r = statm_step sys pf p r"
  "cmdline_step env prev (pf\<lparr>pf_fd := a, pf_limits := b\<rparr>) r = cmdline_step env prev pf r"
  "status_step env prev (pf\<lparr>pf_fd := a, pf_limits := b\<rparr>) us r = status_step env prev pf us r"
  "name_step env prev (pf\<lparr>pf_fd := a, pf_limits := b\<rparr>) st l = name_step env prev pf st l"
  "io_step env (pf\<lparr>pf_fd := a, pf_limits := b\<rparr>) p r = io_step env pf p r"
  "smaps_step env prev (pf\<lparr>pf_fd := a, pf_limits := b\<rparr>) p r = smaps_step env prev pf p r"
  "statm_step sys (pf\<lparr>pf_smaps := c, pf_smaps_rollup := d\<rparr>) p r = statm_step sys pf p r"
  "cmdline_step env prev (pf\<lparr>pf_smaps := c, pf_smaps_rollup := d\<rparr>) r = cmdline_step env prev pf r"
  "status_step env prev (pf\<lparr>pf_smaps := c, pf_smaps_rollup := d\<rparr>) us r = status_step env prev pf us r"
  "name_step env prev (pf\<lparr>pf_smaps := c, pf_smaps_rollup := d\<rparr>) st l = name_step env prev pf st l"
  "io_step env (pf\<lparr>pf_smaps := c, pf_smaps_rollup := d\<rparr>) p r = io_step env pf p r"
  "fd_step env prev (pf\<lparr>pf_smaps := c, pf_smaps_rollup := d\<rparr>) p r = fd_step env prev pf p r"
  "statm_step sys (pf\<lparr>pf_cmdline := u, pf_exe := v, pf_status := x\<rparr>) p r = statm_step sys pf p r"
  "io_step env (pf\<lparr>pf_cmdline := u, pf_exe := v, pf_status := x\<rparr>) p r = io_step env pf p r"
  "fd_step env prev (pf\<lparr>pf_cmdline := u, pf_exe := v, pf_status := x\<rparr>) p r = fd_step env prev pf p r"
  "smaps_step env prev (pf\<lparr>pf_cmdline := u, pf_exe := v, pf_status := x\<rparr>) p r = smaps_step env prev pf p r"
  unfolding step_defs pf_sel by (rule refl)+

lemma fd_step_unscheduled:
  "\<not> se_do_fds env \<Longrightarrow> fd_step env prev (pf\<lparr>pf_fd := a, pf_limits := b\<rparr>) p r = fd_step env prev pf p r"
  by (simp add: fd_step_def)

lemma smaps_step_unscheduled:
  "\<not> se_do_smaps env \<or> \<not> c_read_smaps (c_scan (se_cfg env)) \<Longrightarrow>
    smaps_step env prev (pf\<lparr>pf_smaps := c, pf_smaps_rollup := d\<rparr>) p r = smaps_step env prev pf p r"
  by (auto simp: smaps_step_def)

lemma read_process_fd_unscheduled:
  assumes "\<not> se_do_fds env"
  shows "read_process env pid (pf\<lparr>pf_fd := a, pf_limits := b\<rparr>) s r = read_process env pid pf s r"
proof -
  have "pf_stat (pf\<lparr>pf_fd := a, pf_limits := b\<rparr>) = pf_stat pf" by simp
  then show ?thesis
    unfolding read_process_def readings_def steps_other_files fd_step_unscheduled [OF assms]
    by (simp only:)
qed

lemma read_process_smaps_unscheduled:
  assumes "\<not> se_do_smaps env \<or> \<not> c_read_smaps (c_scan (se_cfg env))"
  shows "read_process env pid (pf\<lparr>pf_smaps := c, pf_smaps_rollup := d\<rparr>) s r = read_process env pid pf s r"
proof -
  have "pf_stat (pf\<lparr>pf_smaps := c, pf_smaps_rollup := d\<rparr>) = pf_stat pf" by simp
  then show ?thesis
    unfolding read_process_def readings_def steps_other_files smaps_step_unscheduled [OF assms]
    by (simp only:)
qed

text \<open>A process whose name and user are remembered.\<close>

definition remembered :: "scan_env \<Rightarrow> go_int \<Rightarrow> proc_files \<Rightarrow> scanner \<Rightarrow> bool" where
  "remembered env pid pf s \<longleftrightarrow>
     c_cache_cmdline (c_scan (se_cfg env))
     \<and> (case read_stat (pf_stat pf) of Inl _ \<Rightarrow> False
        | Inr st \<Rightarrow>
            (case sm_entry (sc_state s) pid of None \<Rightarrow> False
             | Some old \<Rightarrow> ps_start_ticks old = st_start_ticks st \<and> ps_name old \<noteq> [] \<and> ps_user old \<noteq> []))"

lemma read_process_remembered:
  assumes "remembered env pid pf s" and "\<not> f_needs_cmdline (se_filter env)"
    and "\<not> c_read_status (c_scan (se_cfg env))"
  shows "read_process env pid (pf\<lparr>pf_cmdline := u, pf_exe := v, pf_status := x\<rparr>) s r = read_process env pid pf s r"
proof -
  let ?pf = "pf\<lparr>pf_cmdline := u, pf_exe := v, pf_status := x\<rparr>"
  obtain st old where st: "read_stat (pf_stat pf) = Inr st" and e: "sm_entry (sc_state s) pid = Some old"
    and old: "ps_start_ticks old = st_start_ticks st" "ps_name old \<noteq> []" "ps_user old \<noteq> []"
    and cache: "c_cache_cmdline (c_scan (se_cfg env))"
    using assms(1) by (auto simp: remembered_def split: sum.split_asm option.split_asm)
  have lk: "sm_lookup pid (st_start_ticks st) (sc_state s) = (sc_state s, Some old)"
    using e old by (simp add: sm_lookup_cases)
  have pf: "pf_stat ?pf = pf_stat pf" by simp
  have c: "cached env (Some old) ps_name = Some old" "cached env (Some old) ps_user = Some old"
    using cache old by (simp_all add: cached_def)
  have "cmdline_step env (Some old) ?pf r = cmdline_step env (Some old) pf r" for r
    using assms(2) c by (simp add: cmdline_step_def)
  moreover have "status_step env (Some old) ?pf us r = status_step env (Some old) pf us r" for us r
    using assms(3) c old by (simp add: status_step_def)
  moreover have "name_step env (Some old) ?pf st' l = name_step env (Some old) pf st' l" for st' l
    using c by (simp add: name_step_def)
  ultimately show ?thesis
    unfolding read_process_def readings_def steps_other_files pf st sum.case lk prod.case
    by (simp only:)
qed


section \<open>Figures carried from scan to scan\<close>

lemma kept_mirror:
  assumes "read_process env pid pf s r = ((s', r'), Some p)"
  obtains e where "sm_entry (sc_state s') pid = Some e" "ps_start_ticks e = p_start_ticks p"
    "ps_name e = p_name p" "ps_user e = p_user p" "ps_uid e = p_uid p"
    "ps_have_fds e = p_have_fds p" "ps_open_fds e = p_open_fds p" "ps_max_fds e = p_max_fds p"
    "ps_fd_ratio e = p_fd_ratio p" "ps_have_pss e = p_have_pss p" "ps_pss_bytes e = p_pss_bytes p"
    "ps_swap_pss_bytes e = p_swap_pss_bytes p"
  using assms
proof (cases rule: read_process_cases)
  case (kept st m prev cmdline cr r1 uid user status users r2 q io)
  let ?e = "(new_pid_state st status io q)\<lparr>ps_generation := generation m\<rparr>"
  have e: "sm_entry (sc_state s') pid = Some ?e" using kept(7) by (simp add: sm.entries)
  have p: "p = fst (finish pid prev (new_pid_state st status io q) q m)" using kept(8) by simp
  have "p_start_ticks q = st_start_ticks st"
    using readings_identity [OF kept(6)] by (simp add: same_identity_def base_process_def)
  with p show thesis
    by (intro that [OF e]; cases prev) (simp_all add: finish_def compute_deltas_def new_pid_state_def)
qed simp_all

lemma smaps_step_cached:
  "smaps_step env prev pf p r = Inr (q, r') \<Longrightarrow> \<not> se_do_smaps env \<Longrightarrow> c_read_smaps (c_scan (se_cfg env)) \<Longrightarrow>
    prev = Some old \<Longrightarrow> ps_have_pss old \<Longrightarrow>
    p_have_pss q \<and> p_pss_bytes q = ps_pss_bytes old \<and> p_swap_pss_bytes q = ps_swap_pss_bytes old"
  by (auto simp: smaps_step_def)

lemma fd_step_cached:
  "fd_step env prev pf p r = Inr (q, r') \<Longrightarrow> \<not> se_do_fds env \<Longrightarrow> prev = Some old \<Longrightarrow> ps_have_fds old \<Longrightarrow>
    p_have_fds q \<and> p_open_fds q = ps_open_fds old \<and> p_max_fds q = ps_max_fds old
    \<and> p_fd_ratio q = ps_fd_ratio old"
  by (auto simp: fd_step_def)


section \<open>Failed reads that are remembered\<close>

lemma statm_fd_smaps_io:
  assumes "readings env prev pf p r = Inr ((q, io), r')" and "\<not> p_have_io p"
  shows "(p_have_io q \<longleftrightarrow> io \<noteq> None)
    \<and> io = (if c_read_io (c_scan (se_cfg env))
      then case read_io (pf_io pf) of Inl _ \<Rightarrow> None | Inr i \<Rightarrow> Some i else None)"
  using assms(1)
proof (cases rule: readings_cases)
  case (1 p1 r1 p2 r2 p3 r3)
  have "p_have_io p2 \<longleftrightarrow> p_have_io p1 \<or> io \<noteq> None"
    using io_step_process [OF 1(2)] by (cases io) simp_all
  then show ?thesis
    using statm_step_process [OF 1(1)] fd_step_process [OF 1(3)] smaps_step_process [OF 1(4)]
      io_step_reading [OF 1(2)] assms(2) by simp
qed

lemma kept_io:
  assumes "read_process env pid pf s r = ((s', r'), Some p)"
  obtains e io where "sm_entry (sc_state s') pid = Some e" "ps_start_ticks e = p_start_ticks p"
    "p_have_io p \<longleftrightarrow> io \<noteq> None"
    "ps_read_bytes e = (case io of None \<Rightarrow> 0 | Some i \<Rightarrow> io_read_bytes i)"
    "io = (if c_read_io (c_scan (se_cfg env))
      then case read_io (pf_io pf) of Inl _ \<Rightarrow> None | Inr i \<Rightarrow> Some i else None)"
    "\<And>old. sm_entry (sc_state s) pid = Some old \<Longrightarrow> ps_start_ticks old = p_start_ticks p \<Longrightarrow>
      p_have_deltas p \<and> p_d_read_bytes p = delta (ps_read_bytes e) (ps_read_bytes old)"
  using assms
proof (cases rule: read_process_cases)
  case (kept st m prev cmdline cr r1 uid user status users r2 q io)
  let ?e = "(new_pid_state st status io q)\<lparr>ps_generation := generation m\<rparr>"
  have e: "sm_entry (sc_state s') pid = Some ?e" using kept(7) by (simp add: sm.entries)
  have p: "p = fst (finish pid prev (new_pid_state st status io q) q m)" using kept(8) by simp
  have start: "p_start_ticks q = st_start_ticks st"
    using readings_identity [OF kept(6)] by (simp add: same_identity_def base_process_def)
  have start': "p_start_ticks p = p_start_ticks q" "p_have_io p = p_have_io q"
    by (cases prev; simp add: p finish_def compute_deltas_def)+
  note io = statm_fd_smaps_io [OF kept(6)]
  show thesis
  proof (rule that [OF e, of io])
    fix old
    assume "sm_entry (sc_state s) pid = Some old" and "ps_start_ticks old = p_start_ticks p"
    then have "prev = Some old" using kept(2) start start' by (simp add: sm_lookup_cases)
    then show "p_have_deltas p \<and> p_d_read_bytes p = delta (ps_read_bytes ?e) (ps_read_bytes old)"
      by (simp add: p finish_def compute_deltas_def)
  qed (use start start' io in \<open>simp_all add: new_pid_state_def base_process_def\<close>)
qed simp_all


lemma keep_kernel_thread:
  "f_ignore_kernel f \<Longrightarrow> fi_is_kernel i \<Longrightarrow> \<not> fst (keep f i)"
  by (simp add: keep_def Let_def)

text \<open>
  C33. A process whose command line cannot be read counts as a kernel thread: with the filter that
  excludes kernel threads, as by default, it is never returned, whatever its other files hold.
\<close>

theorem unreadable_cmdline_dropped:
  assumes "f_ignore_kernel (se_filter env)" and "f_needs_cmdline (se_filter env)"
    and "read_cmdline (pf_cmdline pf) = Inl e"
  shows "snd (read_process env pid pf s r) = None"
proof -
  obtain s' r' po where rp: "read_process env pid pf s r = ((s', r'), po)"
    by (metis prod.exhaust_sel)
  then show ?thesis
  proof (cases rule: read_process_cases)
    case (kept st m prev cmdline cr r1 uid user status users r2 q io)
    have "cmdline = [] \<and> cr"
      using kept(3) assms(2,3) by (auto simp: cmdline_step_def split: if_split_asm)
    then have "fi_is_kernel (filter_input_of st cmdline cr user)"
      by (simp add: filter_input_of_def is_kernel_thread_def)
    with kept(5) keep_kernel_thread [OF assms(1)] show ?thesis by blast
  qed (use rp in simp_all)
qed

text \<open>
  C34. An unreadable \<^verbatim>\<open>status\<close> makes a process root's: without a remembered user it is returned
  under UID 0 as \<^verbatim>\<open>uid:0\<close>, and that name is remembered, so that with \<^verbatim>\<open>cache_cmdline\<close> a later scan
  that does read the status still returns the process under it.
\<close>

theorem unreadable_status_user:
  assumes "sm_entry (sc_state s0) pid = None" and "read_status (pf_status pf1) = Inl e"
    and "read_process env1 pid pf1 s0 r0 = ((s1, r1), Some p1)"
    and "sm_entry (sc_state s2) pid = sm_entry (sc_state s1) pid"
    and "read_process env2 pid pf2 s2 r2 = ((s3, r3), Some p2)"
    and "p_start_ticks p2 = p_start_ticks p1" and "c_cache_cmdline (c_scan (se_cfg env2))"
  shows "p_uid p1 = 0 \<and> p_user p1 = ''uid:0'' \<and> p_user p2 = ''uid:0''"
proof -
  have u0: "uid_string 0 = ''uid:0''" by (simp add: uid_string_def itoa_def)
  have p1: "p_uid p1 = 0 \<and> p_user p1 = ''uid:0''"
    using assms(3)
  proof (cases rule: read_process_cases)
    case (kept st m prev cmdline cr ra uid user status users rb q io)
    have "prev = None" using kept(2) assms(1) by (simp add: sm_lookup_cases)
    then have "uid = 0 \<and> user = []"
      using kept(4) assms(2) by (auto simp: status_step_def cached_def split: if_split_asm)
    then show ?thesis
      using readings_identity [OF kept(6)] kept(8) u0 \<open>prev = None\<close>
      by (simp add: finish_def base_process_def same_identity_def final_user_def)
  qed simp_all
  obtain e' where e': "sm_entry (sc_state s1) pid = Some e'" "ps_start_ticks e' = p_start_ticks p1"
    "ps_user e' = p_user p1"
    using assms(3) by (elim kept_mirror) blast
  have "p_user p2 = p_user p1"
    using assms(5)
  proof (cases rule: read_process_cases)
    case (kept st m prev cmdline cr ra uid user status users rb q io)
    have id: "p_start_ticks q = st_start_ticks st" "p_user q = final_user user uid"
      using readings_identity [OF kept(6)] by (simp_all add: same_identity_def base_process_def)
    have p: "p_start_ticks p2 = p_start_ticks q" "p_user p2 = p_user q"
      using kept(8) by (cases prev; simp add: finish_def compute_deltas_def)+
    have "prev = Some e'" using kept(2) e' assms(4,6) id p by (simp add: sm_lookup_cases)
    then have "cached env2 prev ps_user = Some e'" using assms(7) e'(3) p1 by (simp add: cached_def)
    then have "user = p_user p1"
      using kept(4) e'(3) p1
      by (auto simp: status_step_def Let_def split: if_split_asm sum.split_asm)
    with id p p1 show ?thesis by (simp add: final_user_def)
  qed simp_all
  with p1 show ?thesis by simp
qed

end
