(* ===== verification/Witnesses.thy ===== *)
theory Witnesses
  imports Examples ScanCache
begin

text \<open>
  The properties of the readers, the scanner, the filter, the namer and the aggregation, applied to
  the machine of \<open>Examples\<close>.
\<close>

section \<open>Texts of the process files\<close>

theorem parse_kernel_stat_line_witness:
  "parse_stat (kernel_stat_line (\<lambda>_. ''0'')
      \<lparr>st_pid = 7, st_comm = ''a) (b'', st_state = CHR ''S'', st_ppid = 1, st_minor_faults = 10,
       st_major_faults = 2, st_utime_ticks = 50, st_stime_ticks = 5, st_threads = 3,
       st_start_ticks = 300, st_vsize_bytes = 4096, st_rss_pages = 2\<rparr>) =
    Inr \<lparr>st_pid = 7, st_comm = ''a) (b'', st_state = CHR ''S'', st_ppid = 1, st_minor_faults = 10,
       st_major_faults = 2, st_utime_ticks = 50, st_stime_ticks = 5, st_threads = 3,
       st_start_ticks = 300, st_vsize_bytes = 4096, st_rss_pages = 2\<rparr>"
  by (rule parse_kernel_stat_line) (simp_all add: plain_word_def plain_char_def)

theorem read_cmdline_argv_witness:
  "read_cmdline (File (concat (map (\<lambda>a. a @ [nul]) [''nginx'', [], ''-g''])) None) = Inr [''nginx'', ''-g'']"
  by (subst read_cmdline_argv) (simp_all add: nul_def)


lemma length_format_uint: "length (format_uint n) \<le> Suc n"
proof (induction n rule: format_uint.induct)
  case (1 n)
  show ?case
  proof (cases "n < 10")
    case False
    with 1 have "length (format_uint (n div 10)) \<le> Suc (n div 10)" by simp
    with False show ?thesis by (simp add: format_uint.simps [of n])
  qed (simp add: format_uint.simps [of n])
qed

lemma format_uint_no_newline: "CHR 0x0A \<notin> set (format_uint n)" "CHR 0x0D \<notin> set (format_uint n)"
  using plain_format_uint [of n] by (auto simp: plain_word_def plain_char_def)

lemma short_key_line:
  "length key + n + 3 < mx \<Longrightarrow> CHR 0x0A \<notin> set key \<Longrightarrow> CHR 0x0D \<notin> set key \<Longrightarrow>
    sep \<noteq> CHR 0x0A \<Longrightarrow> sep \<noteq> CHR 0x0D \<Longrightarrow> short_line mx (key_line key sep n)"
  using length_format_uint [of n] by (auto simp: short_line_def key_line_def format_uint_no_newline)

theorem read_kernel_status_witness:
  "read_status (File (unlines (kernel_status_lines [''Name: sshd''] [''FDSize: 64''] [''Threads: 1''] ''0'' ''0'' 3
      \<lparr>ss_uid = 1000, ss_gid = 100, ss_vol_ctx_sw = 12, ss_invol_ctx_sw = 5, ss_swap_bytes = 3072\<rparr> @ [''x''])) None)
    = Inr \<lparr>ss_uid = 1000, ss_gid = 100, ss_vol_ctx_sw = 12, ss_invol_ctx_sw = 5, ss_swap_bytes = 3072\<rparr>"
proof (rule read_kernel_status)
  have k: "length (key_line key sep n) \<le> length key + 3 + n" for key sep n
    using length_format_uint [of n] by (simp add: key_line_def)
  have i: "short_line 65536 (id_line ''Uid'' 1000 ''0'')" "short_line 65536 (id_line ''Gid'' 100 ''0'')"
    "short_line 65536 (''VmSwap:'' @ CHR 0x09 # format_uint 3 @ '' kB'')"
    using k [of "''Uid''" "CHR 0x09" 1000] k [of "''Gid''" "CHR 0x09" 100] length_format_uint [of 3]
    by (simp_all add: short_line_def id_line_def key_line_def format_uint_no_newline)
  have "short_line 65536 ''Name: sshd''" "short_line 65536 ''FDSize: 64''" "short_line 65536 ''Threads: 1''"
    "short_line 65536 ''x''" by (simp_all add: short_line_def)
  with i show "\<forall>l \<in> set (kernel_status_lines [''Name: sshd''] [''FDSize: 64''] [''Threads: 1''] ''0'' ''0'' 3
      \<lparr>ss_uid = 1000, ss_gid = 100, ss_vol_ctx_sw = 12, ss_invol_ctx_sw = 5, ss_swap_bytes = 3072\<rparr> @ [''x'']).
      short_line 65536 l"
    by (simp add: kernel_status_lines_def short_key_line)
  show "\<forall>l \<in> set [''Name: sshd''] \<union> set [''FDSize: 64''] \<union> set [''Threads: 1'']. foreign_line l" by code_simp
qed (simp_all add: plain_word_def plain_char_def max_u64_def)

section \<open>Scans\<close>

theorem scan_accounting_witness:
  "\<exists>s' r. scan ex_sys (\<lambda>_. None) ex_cfg ex_filter ex_namer (ex_world ''100'') ex_scanner = (s', Inr r)
    \<and> rs_total r = 2 \<and> length (rs_procs r) = 1
    \<and> rs_total r = rs_scanned r + rs_ignored r + rs_vanished r + rs_denied r
      + gmap_count (rs_read_errs r) ''stat''"
  using ex_scan_Inr scan_accounting by metis

theorem scan_invariant_witness:
  "\<exists>s' r. scan ex_sys (\<lambda>_. None) ex_cfg ex_filter ex_namer (ex_world ''100'') ex_scanner = (s', Inr r)
    \<and> scanner_inv s' \<and> rs_scanned r = 1 \<and> (\<forall>p \<in> set (rs_procs r). process_ok p)"
proof -
  obtain s' r where s: "scan ex_sys (\<lambda>_. None) ex_cfg ex_filter ex_namer (ex_world ''100'') ex_scanner = (s', Inr r)"
    "rs_scanned r = 1" by (rule ex_scan_Inr)
  from scan_invariant [OF ex_scanner_inv _ s(1)] ex_scanner_gen s show ?thesis by auto
qed

theorem scan_state_bounded_witness:
  "\<exists>s' r. scan ex_sys (\<lambda>_. None) ex_cfg ex_filter ex_namer (ex_world ''100'') ex_scanner = (s', Inr r)
    \<and> rs_state_entries r \<le> 2 \<and> (\<forall>q st. sm_entry (sc_state s') q = Some st \<longrightarrow> q \<in> {7, 8})"
proof -
  obtain s' r where s: "scan ex_sys (\<lambda>_. None) ex_cfg ex_filter ex_namer (ex_world ''100'') ex_scanner = (s', Inr r)"
    "rs_total r = 2" by (rule ex_scan_Inr)
  from scan_state_bounded [OF ex_scanner_inv _ s(1) ex_pids] ex_scanner_gen s show ?thesis by auto
qed

theorem batching_transparent_witness:
  "scan ex_sys (\<lambda>_. None) (with_batches ex_cfg 1 (- 5)) ex_filter ex_namer (ex_world ''100'') ex_scanner
    = scan ex_sys (\<lambda>_. None) ex_cfg ex_filter ex_namer (ex_world ''100'') ex_scanner"
  using batching_transparent [OF _ _ ex_pids] by (simp add: ex_world_def)

section \<open>One process, read twice\<close>

definition ex_io_files :: "string \<Rightarrow> proc_files" where
  "ex_io_files utime = (ex_files utime)\<lparr>pf_io := File (unlines [''rchar: 1'', ''read_bytes: 4096'']) None\<rparr>"

definition ex_result0 :: scan_res where "ex_result0 = empty_result 0 1 1"

definition ex_first :: "(scanner \<times> scan_res) \<times> process option" where
  "ex_first = read_process (ex_env True) 7 (ex_files ''100'') ex_scanner ex_result0"

definition ex_second :: "(scanner \<times> scan_res) \<times> process option" where
  "ex_second = read_process (ex_env False) 7 (ex_io_files ''150'') (fst (fst ex_first)) ex_result0"

lemma ex_reads:
  "case (ex_first, ex_second) of
     ((_, Some p1), (_, Some p2)) \<Rightarrow> p_have_fds p1 \<and> p_open_fds p1 = 2 \<and> \<not> p_have_io p1
       \<and> p_start_ticks p2 = p_start_ticks p1
   | _ \<Rightarrow> False"
  by code_simp

lemma ex_reads_Some:
  obtains s1 r1 p1 s3 r3 p2 where
    "read_process (ex_env True) 7 (ex_files ''100'') ex_scanner ex_result0 = ((s1, r1), Some p1)"
    "read_process (ex_env False) 7 (ex_io_files ''150'') s1 ex_result0 = ((s3, r3), Some p2)"
    "p_have_fds p1" "p_open_fds p1 = 2" "\<not> p_have_io p1" "p_start_ticks p2 = p_start_ticks p1"
    "snd ex_first = Some p1" "snd ex_second = Some p2"
proof -
  obtain s1 r1 po1 where 1: "ex_first = ((s1, r1), po1)" by (metis prod.exhaust_sel)
  obtain s3 r3 po2 where 2: "ex_second = ((s3, r3), po2)" by (metis prod.exhaust_sel)
  from ex_reads obtain p1 p2 where po: "po1 = Some p1" "po2 = Some p2"
    and "p_have_fds p1" "p_open_fds p1 = 2" "\<not> p_have_io p1" "p_start_ticks p2 = p_start_ticks p1"
    unfolding 1 2 by (cases po1; cases po2) auto
  moreover have "read_process (ex_env True) 7 (ex_files ''100'') ex_scanner ex_result0 = ((s1, r1), Some p1)"
    using 1 po by (simp add: ex_first_def)
  moreover have "read_process (ex_env False) 7 (ex_io_files ''150'') s1 ex_result0 = ((s3, r3), Some p2)"
    using 2 po unfolding ex_second_def 1 by simp
  moreover have "snd ex_first = Some p1" "snd ex_second = Some p2" unfolding 1 2 po by simp_all
  ultimately show thesis by (intro that)
qed

lemma ex_env_fields:
  "se_do_fds (ex_env b) = b" "se_do_smaps (ex_env b) = b" "se_filter (ex_env b) = ex_filter"
  "se_cfg (ex_env b) = ex_cfg"
  by (simp_all add: ex_env_def)

lemma ex_cfg_fields: "c_read_io (c_scan ex_cfg)" "c_cache_cmdline (c_scan ex_cfg)" "c_read_status (c_scan ex_cfg)"
  by (simp_all add: ex_cfg_def normalise_def default_config_def)


lemma ex_io: "read_io (pf_io (ex_io_files ''150'')) = Inr \<lparr>io_read_bytes = 4096, io_write_bytes = 0, io_syscr = 0, io_syscw = 0\<rparr>"
  by code_simp


theorem unreadable_status_user_witness:
  "\<exists>p1 p2. snd ex_first = Some p1 \<and> snd ex_second = Some p2 \<and> p_uid p1 = 0 \<and> p_user p2 = ''uid:0''"
proof -
  obtain s1 r1 p1 s3 r3 p2 where r:
    "read_process (ex_env True) 7 (ex_files ''100'') ex_scanner ex_result0 = ((s1, r1), Some p1)"
    "read_process (ex_env False) 7 (ex_io_files ''150'') s1 ex_result0 = ((s3, r3), Some p2)"
    "p_start_ticks p2 = p_start_ticks p1"
    "snd ex_first = Some p1" "snd ex_second = Some p2" by (rule ex_reads_Some)
  have "sm_entry (sc_state ex_scanner) 7 = None"
    by (simp add: ex_scanner_def scanner_new_def new_state_map_def sm_entry_def)
  moreover have "read_status (pf_status (ex_files ''100'')) = Inl (Errno EACCES)"
    by (simp add: ex_files_def denied_file_def read_status_def)
  ultimately have "p_uid p1 = 0 \<and> p_user p2 = ''uid:0''"
    using unreadable_status_user [OF _ _ r(1) refl r(2,3)] by (simp add: ex_env_fields ex_cfg_fields)
  with r(4,5) show ?thesis by blast
qed

theorem unreadable_cmdline_dropped_witness:
  "snd (read_process ((ex_env True)\<lparr>se_filter := ex_filter\<lparr>f_ignore_kernel := True, f_needs_cmdline := True\<rparr>\<rparr>) 7
    ((ex_files ''100'')\<lparr>pf_cmdline := denied_file\<rparr>) ex_scanner ex_result0) = None"
  by (rule unreadable_cmdline_dropped [where e = "Errno EACCES"])
     (simp_all add: denied_file_def read_cmdline_def read_file_def)

definition ex_old :: pid_state where
  "ex_old = \<lparr>ps_start_ticks = 299, ps_generation = 0, ps_utime_ticks = 9000, ps_stime_ticks = 0,
     ps_minor_faults = 0, ps_major_faults = 0, ps_vol_ctx_sw = 0, ps_invol_ctx_sw = 0, ps_read_bytes = 0,
     ps_write_bytes = 0, ps_name = ''old'', ps_user = ''root'', ps_uid = 0, ps_open_fds = 5,
     ps_max_fds = 10, ps_fd_ratio = 1 / 2, ps_have_fds = True, ps_pss_bytes = 0, ps_swap_pss_bytes = 0,
     ps_have_pss = False\<rparr>"

definition ex_reused :: scanner where
  "ex_reused = ex_scanner\<lparr>sc_state := \<lparr>sm_m = [(7, ex_old)], sm_gen = 0\<rparr>\<rparr>"

lemma ex_read_stat: "case read_stat (pf_stat (ex_files ''100'')) of Inr st \<Rightarrow> st_start_ticks st = 300 | _ \<Rightarrow> False"
  by code_simp

theorem pid_reuse_is_new_witness:
  "read_process (ex_env True) 7 (ex_files ''100'') ex_reused ex_result0 =
    read_process (ex_env True) 7 (ex_files ''100'') ex_scanner ex_result0"
proof -
  obtain st where st: "read_stat (pf_stat (ex_files ''100'')) = Inr st" "st_start_ticks st = 300"
    using ex_read_stat by (auto split: sum.split_asm)
  have "sm_entry (sc_state ex_reused) 7 = Some ex_old" "ps_start_ticks ex_old \<noteq> 300"
    by (simp_all add: ex_reused_def sm_entry_def ex_old_def)
  moreover have "ex_reused\<lparr>sc_state := (sc_state ex_reused)\<lparr>sm_m := AList.delete 7 (sm_m (sc_state ex_reused))\<rparr>\<rparr> = ex_scanner"
    by (simp add: ex_reused_def ex_scanner_def scanner_new_def new_state_map_def)
  ultimately show ?thesis using pid_reuse_is_new [OF st(1), of ex_reused 7 ex_old] st(2) by simp
qed


section \<open>Two scans\<close>

definition ex_inputs :: "scan_input list" where
  "ex_inputs = [(ex_cfg, ex_filter, ex_namer, ex_world ''100''), (ex_cfg, ex_filter, ex_namer, ex_world ''150'')]"

lemma ex_observe:
  "case observe ex_sys (\<lambda>_. None) 7 ex_inputs ex_scanner of
     Some ((st0, p0) # obs) \<Rightarrow> length obs = 1 \<and> st_utime_ticks st0 = 100
       \<and> list_all (\<lambda>(st, p). st_start_ticks st = st_start_ticks st0) obs
       \<and> map (st_utime_ticks \<circ> fst) ((st0, p0) # obs) = [100, 150]
   | _ \<Rightarrow> False"
  by code_simp



theorem expensive_reads_apart_witness:
  "\<not> (should_scan_fds ex_cfg 13 \<and> should_scan_smaps ex_cfg 13)"
  using expensive_reads_apart [of ex_cfg 12 13] by (simp add: ex_cfg_def normalise_def default_config_def)

section \<open>Configuration, filter and namer\<close>

lemma ex_namer_compiles: "case namer_new ex_compiler (c_naming ex_cfg) of Inr _ \<Rightarrow> True | _ \<Rightarrow> False"
  by code_simp

theorem default_rules_shim_witness:
  "\<exists>n. namer_new ex_compiler (c_naming ex_cfg) = Inr n
    \<and> namer_name n \<lparr>ni_comm = ''containerd-shim-runc-v2'', ni_exe = [], ni_cmdline = []\<rparr> = ''containerd-shim''"
proof -
  obtain n where n: "namer_new ex_compiler (c_naming ex_cfg) = Inr n"
    using ex_namer_compiles by (cases "namer_new ex_compiler (c_naming ex_cfg)") auto
  with default_rules_shim [of ex_compiler n "\<lparr>ni_comm = ''containerd-shim-runc-v2'', ni_exe = [], ni_cmdline = []\<rparr>" "''-runc-v2''"]
  show ?thesis by (simp add: ex_cfg_def)
qed

theorem namer_cascade_witness:
  "namer_name \<lparr>n_rules = [] @ \<lparr>cr_match_comm = ''runc'', cr_match_comm_prefix = [], cr_match_comm_regex = None,
      cr_match_exe_regex = None, cr_from = ''cmdline'', cr_extract = None, cr_template = ''runc''\<rparr> # [],
      n_fallback = ''comm''\<rparr> \<lparr>ni_comm = ''runc'', ni_exe = [], ni_cmdline = []\<rparr> = sanitize ''runc''"
  by (rule namer_cascade [THEN mp, THEN conjunct1, THEN mp]) (simp_all add: rule_matches_def apply_rule_def)

definition ex_open_filter_config :: filter_config where
  "ex_open_filter_config = \<lparr>c_ignore_kernel_threads = False, c_ignore_comm = Some [''bash''], c_ignore_comm_prefix = None,
     c_ignore_comm_regex = None, c_ignore_cmdline_regex = None, c_ignore_users = None, c_include_only = None\<rparr>"

lemma ex_filter_compiles:
  "case filter_new ex_compiler ex_open_filter_config of Inr f \<Rightarrow> \<not> f_needs_cmdline f | _ \<Rightarrow> False"
  by code_simp

section \<open>Groups\<close>


end
