(* ===== verification/Metrics.thy ===== *)
theory Metrics
  imports AggregateProps
begin

text \<open>
  \<^verbatim>\<open>internal/metrics/metrics.go\<close>: the metric descriptors, the registry and the collector of the
  group metrics. The Prometheus client is not part of the program. What the program asks of it is
  kept as data: the collectors it registers, the sequence of calls it makes on the instruments it
  holds, and the constant metrics it sends to the channel of \<^verbatim>\<open>Collect\<close>.
\<close>

section \<open>Descriptors\<close>

record desc =
  d_name :: string
  d_help :: string
  d_labels :: "string list"

definition new_desc :: "string \<Rightarrow> string \<Rightarrow> string list \<Rightarrow> desc" where
  "new_desc name help ls = \<lparr>d_name = name, d_help = help, d_labels = ls\<rparr>"

definition group_labels :: "string list" where
  "group_labels = [''name'', ''user'']"

definition desc_num_procs :: desc where
  "desc_num_procs = new_desc ''process_group_num_procs''
     ''Live processes in the group.''
     group_labels"

definition desc_num_threads :: desc where
  "desc_num_threads = new_desc ''process_group_num_threads''
     ''Total threads across the group.''
     group_labels"

definition desc_rss :: desc where
  "desc_rss = new_desc ''process_group_memory_rss_bytes''
     (''Resident set size summed across the group. Shared pages are counted once per '' @
     ''member, so the sum exceeds the true footprint.'')
     group_labels"

definition desc_vsize :: desc where
  "desc_vsize = new_desc ''process_group_memory_vsize_bytes''
     ''Virtual size summed across the group.''
     group_labels"

definition desc_shared :: desc where
  "desc_shared = new_desc ''process_group_memory_shared_bytes''
     ''Resident shared pages summed across the group.''
     group_labels"

definition desc_data :: desc where
  "desc_data = new_desc ''process_group_memory_data_bytes''
     (''Private writable pages summed across the group. A useful leak indicator, but not'' @
     '' an approximation of PSS: it excludes text and shared segments.'')
     group_labels"

definition desc_pss :: desc where
  "desc_pss = new_desc ''process_group_memory_pss_bytes''
     (''Proportional set size summed across the group. Each shared page is divided by '' @
     ''the number of processes sharing it, so this sum is the true physical footprint. '' @
     ''Use this rather than RSS for any comparison against total memory.'')
     group_labels"

definition desc_swap_pss :: desc where
  "desc_swap_pss = new_desc ''process_group_memory_swap_pss_bytes''
     ''Proportional swap summed across the group.''
     group_labels"

definition desc_swap :: desc where
  "desc_swap = new_desc ''process_group_memory_swap_bytes''
     ''Swapped memory summed across the group, from VmSwap.''
     group_labels"

definition desc_pss_coverage :: desc where
  "desc_pss_coverage = new_desc ''process_group_pss_coverage_ratio''
     (''Fraction of members whose smaps was readable. Below one means the PSS total is a'' @
     '' lower bound.'')
     group_labels"

definition desc_worst_fd :: desc where
  "desc_worst_fd = new_desc ''process_group_worst_fd_ratio''
     (''Highest open descriptors over limit across the members, taken per process before'' @
     '' aggregation. A ratio of the group sums cannot detect one member near its limit;'' @
     '' alert on this instead.'')
     group_labels"

definition desc_open_fds :: desc where
  "desc_open_fds = new_desc ''process_group_open_fds''
     ''Open file descriptors summed across the group.''
     group_labels"

definition desc_max_fds :: desc where
  "desc_max_fds = new_desc ''process_group_max_fds''
     ''File descriptor limits summed across the group.''
     group_labels"

definition desc_oldest_start :: desc where
  "desc_oldest_start = new_desc ''process_group_oldest_start_time_seconds''
     ''Unix start time of the oldest member, which gives the group age.''
     group_labels"

definition desc_states :: desc where
  "desc_states = new_desc ''process_group_states''
     ''Processes in each state.''
     (group_labels @ [''state''])"

definition desc_fd_coverage :: desc where
  "desc_fd_coverage = new_desc ''process_group_fd_coverage_ratio''
     (''Fraction of members whose descriptor count was readable. Below one means the '' @
     ''descriptor total is a lower bound.'')
     group_labels"

definition desc_io_coverage :: desc where
  "desc_io_coverage = new_desc ''process_group_io_coverage_ratio''
     (''Fraction of members whose io file was readable. Below one means the byte totals '' @
     ''are a lower bound.'')
     group_labels"

definition desc_cpu_seconds :: desc where
  "desc_cpu_seconds = new_desc ''process_group_cpu_seconds_total''
     (''CPU seconds consumed by the group, accumulated from per-process deltas so that '' @
     ''process churn does not reset the counter.'')
     (group_labels @ [''mode''])"

definition desc_minor_faults :: desc where
  "desc_minor_faults = new_desc ''process_group_minor_page_faults_total''
     ''Minor page faults accumulated across the group.''
     group_labels"

definition desc_major_faults :: desc where
  "desc_major_faults = new_desc ''process_group_major_page_faults_total''
     ''Major page faults accumulated across the group.''
     group_labels"

definition desc_ctx_switches :: desc where
  "desc_ctx_switches = new_desc ''process_group_context_switches_total''
     ''Context switches accumulated across the group.''
     (group_labels @ [''kind''])"

definition desc_read_bytes :: desc where
  "desc_read_bytes = new_desc ''process_group_read_bytes_total''
     ''Bytes read from storage, accumulated across the group.''
     group_labels"

definition desc_write_bytes :: desc where
  "desc_write_bytes = new_desc ''process_group_write_bytes_total''
     ''Bytes written to storage, accumulated across the group.''
     group_labels"

section \<open>The registry\<close>

text \<open>What is registered, in the order of \<^verbatim>\<open>New\<close>; names and help texts are those of the options.\<close>

datatype collector =
    Histogram string string "float64 list"
  | Counter string string
  | CounterVec string string "string list"
  | Gauge string string
  | GaugeVec string string "string list"
  | GroupCollector
  | GoCollector
  | ProcessCollector

text \<open>A call on an instrument, named by the instrument; for a vector with the label values.\<close>

datatype instrument_call =
    Inc string
  | Add string float64
  | Observe string float64
  | SetGauge string float64
  | AddWith string "string list" float64
  | SetWith string "string list" float64

record registry =
  rg_reg :: "collector list"
  rg_snap :: "snapshot option"
  rg_calls :: "instrument_call list"

definition scan_buckets :: "float64 list" where
  "scan_buckets = map (\<lambda>n. rnd64 (n / 1000)) [5, 10, 25, 50, 100, 250, 500, 1000, 2500, 5000, 10000]"

definition gauge :: "string \<Rightarrow> string \<Rightarrow> collector" where
  "gauge name help = Gauge name help"

definition registry_new :: registry where
  "registry_new = \<lparr>rg_reg =
     [Histogram ''process_exporter_scan_duration_seconds'' ''Wall time taken by one scan.'' scan_buckets,
      Counter ''process_exporter_scan_cpu_seconds_total''
        (''CPU seconds consumed by the exporter itself while scanning. '' @
         ''This is the direct check that the exporter is not expensive.''),
      Counter ''process_exporter_scans_total''
        ''Completed scans. Counter values do not exist until this reaches 2.'',
      Counter ''process_exporter_scan_overruns_total''
        ''Scans that exceeded the configured interval, causing a skipped tick.'',
      CounterVec ''process_exporter_read_errors_total''
        (''Read failures by file kind, excluding vanished processes and '' @
         ''permission denials, both of which are normal.'') [''file''],
      gauge ''process_exporter_last_scan_timestamp_seconds''
        ''Unix time of the most recent completed scan, for freshness checks.'',
      gauge ''process_exporter_procs_total''
        ''PIDs seen in /proc during the last scan.'',
      gauge ''process_exporter_procs_scanned''
        ''Processes successfully read during the last scan.'',
      gauge ''process_exporter_procs_ignored''
        ''Processes that matched the ignore list during the last scan.'',
      gauge ''process_exporter_procs_vanished''
        ''Processes that exited mid-scan. Normal at any real turnover rate.'',
      gauge ''process_exporter_procs_denied''
        ''Processes whose required files could not be read for permission reasons.'',
      gauge ''process_exporter_groups_total''
        ''Distinct groups currently exported.'',
      gauge ''process_exporter_group_names_seen_total''
        (''Distinct group names ever observed. A large gap above '' @
        ''process_exporter_groups_total means a naming rule is extracting an unbounded '' @
        ''value.''),
      gauge ''process_exporter_state_entries''
        ''Per-PID state map size. Tracks the live process count, not history.'',
      GaugeVec ''process_exporter_build_info'' ''Build information, always 1.'' [''version'', ''goversion''],
      GroupCollector, GoCollector, ProcessCollector],
     rg_snap = None, rg_calls = []\<rparr>"

definition float64_of_nat :: "nat \<Rightarrow> float64" where
  "float64_of_nat n = float64_of_int (int n)"

text \<open>The calls \<^verbatim>\<open>Publish\<close> makes after it has stored the snapshot.\<close>

definition publish_calls :: "snapshot \<Rightarrow> instrument_call list" where
  "publish_calls s =
     [Inc ''process_exporter_scans_total'',
      Observe ''process_exporter_scan_duration_seconds'' (duration_seconds (sn_duration s))]
     @ (if 0 < sn_self_cpu s then [Add ''process_exporter_scan_cpu_seconds_total'' (sn_self_cpu s)] else [])
     @ [SetGauge ''process_exporter_last_scan_timestamp_seconds'' (float64_of_int (unix_seconds (sn_scan_at s))),
        SetGauge ''process_exporter_procs_total'' (float64_of_nat (sn_procs_total s)),
        SetGauge ''process_exporter_procs_scanned'' (float64_of_nat (sn_procs_scanned s)),
        SetGauge ''process_exporter_procs_ignored'' (float64_of_nat (sn_procs_ignored s)),
        SetGauge ''process_exporter_procs_vanished'' (float64_of_nat (sn_procs_vanished s)),
        SetGauge ''process_exporter_procs_denied'' (float64_of_nat (sn_procs_denied s)),
        SetGauge ''process_exporter_groups_total'' (float64_of_nat (length (sn_groups s))),
        SetGauge ''process_exporter_group_names_seen_total'' (float64_of_nat (sn_names_seen s)),
        SetGauge ''process_exporter_state_entries'' (float64_of_nat (sn_state_entries s))]
     @ map (\<lambda>(file_kind, n). AddWith ''process_exporter_read_errors_total'' [file_kind] (float64_of_nat n))
         (sn_read_errs s)"

definition publish :: "snapshot \<Rightarrow> registry \<Rightarrow> registry" where
  "publish s r = r\<lparr>rg_snap := Some s, rg_calls := rg_calls r @ publish_calls s\<rparr>"

definition registry_snapshot :: "registry \<Rightarrow> snapshot option" where
  "registry_snapshot r = rg_snap r"

definition add_overrun :: "registry \<Rightarrow> registry" where
  "add_overrun r = r\<lparr>rg_calls := rg_calls r @ [Inc ''process_exporter_scan_overruns_total'']\<rparr>"

definition set_build_info :: "string \<Rightarrow> string \<Rightarrow> registry \<Rightarrow> registry" where
  "set_build_info version go_version r =
     r\<lparr>rg_calls := rg_calls r @ [SetWith ''process_exporter_build_info'' [version, go_version] 1]\<rparr>"

section \<open>The group collector\<close>

definition describe :: "desc list" where
  "describe =
     [desc_num_procs, desc_num_threads, desc_rss, desc_vsize, desc_shared, desc_data, desc_pss,
      desc_swap_pss, desc_swap, desc_pss_coverage, desc_open_fds, desc_max_fds, desc_worst_fd,
      desc_oldest_start, desc_states, desc_fd_coverage, desc_io_coverage, desc_cpu_seconds,
      desc_minor_faults, desc_major_faults, desc_ctx_switches, desc_read_bytes, desc_write_bytes]"

datatype value_type = GaugeValue | CounterValue

record metric =
  m_desc :: desc
  m_type :: value_type
  m_value :: float64
  m_labels :: "string list"

definition gauge_metric :: "desc \<Rightarrow> float64 \<Rightarrow> string list \<Rightarrow> metric" where
  "gauge_metric d v ls = \<lparr>m_desc = d, m_type = GaugeValue, m_value = v, m_labels = ls\<rparr>"

definition counter_metric :: "desc \<Rightarrow> float64 \<Rightarrow> string list \<Rightarrow> metric" where
  "counter_metric d v ls = \<lparr>m_desc = d, m_type = CounterValue, m_value = v, m_labels = ls\<rparr>"

text \<open>The body of the loop of \<^verbatim>\<open>Collect\<close>, in the order of its blocks.\<close>

definition collect_gauges :: "sample \<Rightarrow> string list \<Rightarrow> metric list" where
  "collect_gauges s nu =
     [gauge_metric desc_num_procs (float64_of_nat (sa_num_procs s)) nu,
      gauge_metric desc_num_threads (float64_of_int (sa_threads s)) nu,
      gauge_metric desc_rss (float64_of_u64 (sa_rss_bytes s)) nu,
      gauge_metric desc_vsize (float64_of_u64 (sa_vsize_bytes s)) nu,
      gauge_metric desc_shared (float64_of_u64 (sa_shared_bytes s)) nu,
      gauge_metric desc_data (float64_of_u64 (sa_data_bytes s)) nu,
      gauge_metric desc_swap (float64_of_u64 (sa_swap_bytes s)) nu,
      gauge_metric desc_oldest_start (sa_oldest_start s) nu,
      gauge_metric desc_pss_coverage (pss_coverage s) nu]"

definition collect_pss :: "sample \<Rightarrow> string list \<Rightarrow> metric list" where
  "collect_pss s nu =
     (if 0 < sa_pss_read s
      then [gauge_metric desc_pss (float64_of_u64 (sa_pss_bytes s)) nu,
            gauge_metric desc_swap_pss (float64_of_u64 (sa_swap_pss_bytes s)) nu]
      else [])"

definition collect_coverage :: "sample \<Rightarrow> string list \<Rightarrow> metric list" where
  "collect_coverage s nu =
     [gauge_metric desc_fd_coverage (fd_coverage s) nu, gauge_metric desc_io_coverage (io_coverage s) nu]"

definition collect_fds :: "sample \<Rightarrow> string list \<Rightarrow> metric list" where
  "collect_fds s nu =
     (if 0 < sa_fds_read s
      then gauge_metric desc_open_fds (float64_of_int (sa_open_fds s)) nu
        # (if 0 < sa_max_fds s
           then [gauge_metric desc_max_fds (float64_of_int (sa_max_fds s)) nu,
                 gauge_metric desc_worst_fd (sa_worst_fd_ratio s) nu]
           else [])
      else [])"

definition collect_states :: "sample \<Rightarrow> string list \<Rightarrow> metric list" where
  "collect_states s nu =
     map (\<lambda>(state, count). gauge_metric desc_states (float64_of_nat count) (nu @ [state])) (sa_state_names s)"

definition collect_counters :: "sample \<Rightarrow> string list \<Rightarrow> metric list" where
  "collect_counters s nu =
     [counter_metric desc_cpu_seconds (ac_utime_seconds (sa_accum s)) (nu @ [''user'']),
      counter_metric desc_cpu_seconds (ac_stime_seconds (sa_accum s)) (nu @ [''system'']),
      counter_metric desc_minor_faults (float64_of_u64 (ac_minor_faults (sa_accum s))) nu,
      counter_metric desc_major_faults (float64_of_u64 (ac_major_faults (sa_accum s))) nu,
      counter_metric desc_ctx_switches (float64_of_u64 (ac_vol_ctx_sw (sa_accum s))) (nu @ [''voluntary'']),
      counter_metric desc_ctx_switches (float64_of_u64 (ac_invol_ctx_sw (sa_accum s))) (nu @ [''involuntary''])]"

definition collect_io :: "sample \<Rightarrow> string list \<Rightarrow> metric list" where
  "collect_io s nu =
     (if 0 < sa_io_read s
      then [counter_metric desc_read_bytes (float64_of_u64 (ac_read_bytes (sa_accum s))) nu,
            counter_metric desc_write_bytes (float64_of_u64 (ac_write_bytes (sa_accum s))) nu]
      else [])"

definition collect_sample :: "sample \<Rightarrow> metric list" where
  "collect_sample s =
     (let nu = [k_name (sa_key s), k_user (sa_key s)]
      in collect_gauges s nu @ collect_pss s nu @ collect_coverage s nu @ collect_fds s nu
         @ collect_states s nu @ collect_counters s nu @ collect_io s nu)"

definition collect :: "registry \<Rightarrow> metric list" where
  "collect r =
     (case rg_snap r of None \<Rightarrow> [] | Some snap \<Rightarrow> concat (map collect_sample (sn_list snap)))"

end
