(* ===== verification/MetricsProps.thy ===== *)
theory MetricsProps
  imports Metrics
begin

text \<open>
  What a scrape shows. The facts about the collector are proved of the metrics of one sample and
  then of a published snapshot; \<open>series\<close> is the identity under which Prometheus stores a metric.
\<close>

section \<open>Descriptors\<close>

lemma desc_names [simp]:
  "d_name desc_num_procs = ''process_group_num_procs''"
  "d_name desc_num_threads = ''process_group_num_threads''"
  "d_name desc_rss = ''process_group_memory_rss_bytes''"
  "d_name desc_vsize = ''process_group_memory_vsize_bytes''"
  "d_name desc_shared = ''process_group_memory_shared_bytes''"
  "d_name desc_data = ''process_group_memory_data_bytes''"
  "d_name desc_pss = ''process_group_memory_pss_bytes''"
  "d_name desc_swap_pss = ''process_group_memory_swap_pss_bytes''"
  "d_name desc_swap = ''process_group_memory_swap_bytes''"
  "d_name desc_pss_coverage = ''process_group_pss_coverage_ratio''"
  "d_name desc_worst_fd = ''process_group_worst_fd_ratio''"
  "d_name desc_open_fds = ''process_group_open_fds''"
  "d_name desc_max_fds = ''process_group_max_fds''"
  "d_name desc_oldest_start = ''process_group_oldest_start_time_seconds''"
  "d_name desc_states = ''process_group_states''"
  "d_name desc_fd_coverage = ''process_group_fd_coverage_ratio''"
  "d_name desc_io_coverage = ''process_group_io_coverage_ratio''"
  "d_name desc_cpu_seconds = ''process_group_cpu_seconds_total''"
  "d_name desc_minor_faults = ''process_group_minor_page_faults_total''"
  "d_name desc_major_faults = ''process_group_major_page_faults_total''"
  "d_name desc_ctx_switches = ''process_group_context_switches_total''"
  "d_name desc_read_bytes = ''process_group_read_bytes_total''"
  "d_name desc_write_bytes = ''process_group_write_bytes_total''"
  by (simp_all add: new_desc_def desc_num_procs_def desc_num_threads_def desc_rss_def desc_vsize_def
      desc_shared_def desc_data_def desc_pss_def desc_swap_pss_def desc_swap_def desc_pss_coverage_def
      desc_worst_fd_def desc_open_fds_def desc_max_fds_def desc_oldest_start_def desc_states_def
      desc_fd_coverage_def desc_io_coverage_def desc_cpu_seconds_def desc_minor_faults_def
      desc_major_faults_def desc_ctx_switches_def desc_read_bytes_def desc_write_bytes_def)

text \<open>How many label values a metric of each descriptor takes.\<close>

lemma desc_arity [simp]:
  "length (d_labels desc_num_procs) = 2" "length (d_labels desc_num_threads) = 2"
  "length (d_labels desc_rss) = 2" "length (d_labels desc_vsize) = 2" "length (d_labels desc_shared) = 2"
  "length (d_labels desc_data) = 2" "length (d_labels desc_pss) = 2" "length (d_labels desc_swap_pss) = 2"
  "length (d_labels desc_swap) = 2" "length (d_labels desc_pss_coverage) = 2"
  "length (d_labels desc_worst_fd) = 2" "length (d_labels desc_open_fds) = 2"
  "length (d_labels desc_max_fds) = 2" "length (d_labels desc_oldest_start) = 2"
  "length (d_labels desc_states) = 3" "length (d_labels desc_fd_coverage) = 2"
  "length (d_labels desc_io_coverage) = 2" "length (d_labels desc_cpu_seconds) = 3"
  "length (d_labels desc_minor_faults) = 2" "length (d_labels desc_major_faults) = 2"
  "length (d_labels desc_ctx_switches) = 3" "length (d_labels desc_read_bytes) = 2"
  "length (d_labels desc_write_bytes) = 2"
  by (simp_all add: new_desc_def group_labels_def desc_num_procs_def desc_num_threads_def desc_rss_def
      desc_vsize_def desc_shared_def desc_data_def desc_pss_def desc_swap_pss_def desc_swap_def
      desc_pss_coverage_def desc_worst_fd_def desc_open_fds_def desc_max_fds_def desc_oldest_start_def
      desc_states_def desc_fd_coverage_def desc_io_coverage_def desc_cpu_seconds_def
      desc_minor_faults_def desc_major_faults_def desc_ctx_switches_def desc_read_bytes_def
      desc_write_bytes_def)

lemma metric_fields [simp]:
  "m_desc (gauge_metric d v ls) = d" "m_labels (gauge_metric d v ls) = ls"
  "m_value (gauge_metric d v ls) = v" "m_type (gauge_metric d v ls) = GaugeValue"
  "m_desc (counter_metric d v ls) = d" "m_labels (counter_metric d v ls) = ls"
  "m_value (counter_metric d v ls) = v" "m_type (counter_metric d v ls) = CounterValue"
  by (simp_all add: gauge_metric_def counter_metric_def)

section \<open>The metrics of one sample\<close>

definition series :: "metric \<Rightarrow> string \<times> string list" where
  "series m = (d_name (m_desc m), m_labels m)"

lemma series_metric [simp]:
  "series (gauge_metric d v ls) = (d_name d, ls)" "series (counter_metric d v ls) = (d_name d, ls)"
  by (simp_all add: series_def)

lemmas collect_blocks = collect_gauges_def collect_pss_def collect_coverage_def collect_fds_def
  collect_counters_def collect_io_def

text \<open>The series of a sample all of whose optional figures were read, block by block.\<close>

definition full_series :: "sample \<Rightarrow> string list \<Rightarrow> (string \<times> string list) list" where
  "full_series s nu =
     map (\<lambda>d. (d_name d, nu))
       [desc_num_procs, desc_num_threads, desc_rss, desc_vsize, desc_shared, desc_data, desc_swap,
        desc_oldest_start, desc_pss_coverage]
     @ map (\<lambda>d. (d_name d, nu)) [desc_pss, desc_swap_pss]
     @ map (\<lambda>d. (d_name d, nu)) [desc_fd_coverage, desc_io_coverage]
     @ map (\<lambda>d. (d_name d, nu)) [desc_open_fds, desc_max_fds, desc_worst_fd]
     @ map (\<lambda>sn. (d_name desc_states, nu @ [fst sn])) (sa_state_names s)
     @ [(d_name desc_cpu_seconds, nu @ [''user'']), (d_name desc_cpu_seconds, nu @ [''system'']),
        (d_name desc_minor_faults, nu), (d_name desc_major_faults, nu),
        (d_name desc_ctx_switches, nu @ [''voluntary'']), (d_name desc_ctx_switches, nu @ [''involuntary''])]
     @ map (\<lambda>d. (d_name d, nu)) [desc_read_bytes, desc_write_bytes]"

lemma distinct_full_series:
  assumes "gmap_wf (sa_state_names s)"
  shows "distinct (full_series s nu)"
proof -
  have "distinct (map (\<lambda>sn. (d_name desc_states, nu @ [fst sn])) (sa_state_names s))"
    using assms by (auto simp: gmap_wf_def distinct_map inj_on_def)
  then show ?thesis
    unfolding full_series_def by auto
qed

lemma collect_sample_subseq:
  "subseq (map series (collect_sample s)) (full_series s [k_name (sa_key s), k_user (sa_key s)])"
  unfolding collect_sample_def full_series_def Let_def map_append
  by (intro list_emb_append_mono) (simp_all add: collect_blocks collect_states_def comp_def case_prod_unfold)

lemma subseq_distinct: "subseq xs ys \<Longrightarrow> distinct ys \<Longrightarrow> distinct xs"
  by (induction rule: list_emb.induct) (auto dest: list_emb_set)

lemma collect_sample_distinct: "gmap_wf (sa_state_names s) \<Longrightarrow> distinct (map series (collect_sample s))"
  using collect_sample_subseq distinct_full_series by (rule subseq_distinct)

definition shaped :: "string list \<Rightarrow> metric \<Rightarrow> bool" where
  "shaped nu m \<longleftrightarrow>
     m_desc m \<in> set describe \<and> length (m_labels m) = length (d_labels (m_desc m)) \<and> take 2 (m_labels m) = nu"

lemma shaped_metric:
  "shaped nu (gauge_metric d v ls) \<longleftrightarrow> d \<in> set describe \<and> length ls = length (d_labels d) \<and> take 2 ls = nu"
  "shaped nu (counter_metric d v ls) \<longleftrightarrow> d \<in> set describe \<and> length ls = length (d_labels d) \<and> take 2 ls = nu"
  by (simp_all add: shaped_def)

lemma shaped_blocks:
  "list_all (shaped [n, u]) (collect_gauges s [n, u])"
  "list_all (shaped [n, u]) (collect_pss s [n, u])"
  "list_all (shaped [n, u]) (collect_coverage s [n, u])"
  "list_all (shaped [n, u]) (collect_fds s [n, u])"
  "list_all (shaped [n, u]) (collect_counters s [n, u])"
  "list_all (shaped [n, u]) (collect_io s [n, u])"
  by (simp_all add: collect_blocks shaped_metric describe_def)

lemma shaped_states: "list_all (shaped [n, u]) (collect_states s [n, u])"
  by (simp add: collect_states_def shaped_metric list_all_iff describe_def case_prod_unfold)

lemma collect_sample_shape:
  assumes "m \<in> set (collect_sample s)"
  shows "m_desc m \<in> set describe" and "length (m_labels m) = length (d_labels (m_desc m))"
    and "take 2 (m_labels m) = [k_name (sa_key s), k_user (sa_key s)]"
proof -
  let ?nu = "[k_name (sa_key s), k_user (sa_key s)]"
  have "list_all (shaped ?nu) (collect_sample s)"
    unfolding collect_sample_def Let_def by (simp only: list_all_append shaped_blocks shaped_states simp_thms)
  then have "shaped ?nu m" using assms by (simp add: list_all_iff)
  then show "m_desc m \<in> set describe" "length (m_labels m) = length (d_labels (m_desc m))"
    "take 2 (m_labels m) = ?nu" by (simp_all add: shaped_def)
qed

text \<open>At most thirty-six metrics: twenty-four and one for each of the twelve state names.\<close>

definition all_state_names :: "string list" where
  "all_state_names =
     [''running'', ''sleeping'', ''disk_sleep'', ''zombie'', ''stopped'', ''tracing_stop'', ''dead'',
      ''idle'', ''wakekill'', ''waking'', ''parked'', ''unknown'']"

lemma state_name_known: "state_name c \<in> set all_state_names"
  by (simp add: state_name_def all_state_names_def)

lemma state_names_keys:
  "gmap_keys m \<subseteq> set all_state_names \<Longrightarrow>
    gmap_keys (fold (\<lambda>(st, n) m. AList.update (state_name st) n m) states m) \<subseteq> set all_state_names"
proof (induction states arbitrary: m)
  case (Cons c states)
  obtain st n where c: "c = (st, n)" by (cases c)
  have "gmap_keys (AList.update (state_name st) n m) \<subseteq> set all_state_names"
    using Cons.prems by (simp add: dom_update state_name_known)
  from Cons.IH [OF this] show ?case by (simp add: c)
qed simp

lemma collect_sample_length: "length (collect_sample s) \<le> 24 + length (sa_state_names s)"
  by (simp add: collect_sample_def Let_def collect_blocks collect_states_def)

section \<open>A published snapshot\<close>

lemma collect_publish: "collect (publish snap r) = concat (map collect_sample (sn_list snap))"
  by (simp add: collect_def publish_def)

lemma collect_publish_metric:
  assumes "m \<in> set (collect (publish snap r))" and "snapshot_wf snap"
  obtains s where "map_of (sn_groups snap) (sa_key s) = Some s" "m \<in> set (collect_sample s)"
  using assms snapshot_sample [OF assms(2)] by (auto simp: collect_publish)

lemma snapshot_list_keys: "snapshot_wf snap \<Longrightarrow> map sa_key (sn_list snap) = map fst (sn_groups snap)"
  by (auto simp: snapshot_wf_def)

lemma snapshot_sample_names: "snapshot_wf snap \<Longrightarrow> s \<in> set (sn_list snap) \<Longrightarrow> gmap_wf (sa_state_names s)"
  by (auto simp: snapshot_wf_def)

lemma distinct_concat_keyed:
  assumes "distinct (map key xs)" and "\<forall>x \<in> set xs. distinct (f x)"
    and "\<forall>x \<in> set xs. \<forall>y \<in> set (f x). tag y = key x"
  shows "distinct (concat (map f xs))"
  using assms by (induction xs) (auto simp: image_iff, metis)

lemma collect_distinct:
  assumes "snapshot_wf snap"
  shows "distinct (map series (collect (publish snap r)))"
proof -
  have "distinct (concat (map (map series \<circ> collect_sample) (sn_list snap)))"
  proof (rule distinct_concat_keyed [where key = "\<lambda>s. [k_name (sa_key s), k_user (sa_key s)]"
        and tag = "\<lambda>(d, ls). take 2 ls"])
    have "distinct (map sa_key (sn_list snap))"
      unfolding snapshot_list_keys [OF assms] using assms by (simp add: snapshot_wf_def gmap_wf_def)
    then show "distinct (map (\<lambda>s. [k_name (sa_key s), k_user (sa_key s)]) (sn_list snap))"
      by (auto simp: distinct_map inj_on_def)
    show "\<forall>s \<in> set (sn_list snap). distinct ((map series \<circ> collect_sample) s)"
      using snapshot_sample_names [OF assms] by (simp add: collect_sample_distinct)
    show "\<forall>s \<in> set (sn_list snap). \<forall>x \<in> set ((map series \<circ> collect_sample) s).
        (case x of (d, ls) \<Rightarrow> take 2 ls) = [k_name (sa_key s), k_user (sa_key s)]"
      using collect_sample_shape(3) by (auto simp: series_def)
  qed
  then show ?thesis by (simp add: collect_publish map_concat)
qed

text \<open>
  C13. Every scrape of a published snapshot is acceptable to the client library: no series is sent
  twice, every metric has a described descriptor and exactly as many label values as its descriptor
  has labels. A duplicate would make the registry refuse the whole scrape, and a wrong number of
  values would end the program.
\<close>

theorem scrape_well_formed:
  assumes "apply_scan clock res retention a = (a', snap)"
  shows "distinct (map series (collect (publish snap r)))
    \<and> (\<forall>m \<in> set (collect (publish snap r)).
          m_desc m \<in> set describe \<and> length (m_labels m) = length (d_labels (m_desc m)))"
proof -
  note wf = snapshot_wfI [OF assms]
  show ?thesis
    using collect_distinct [OF wf] collect_publish_metric [OF _ wf] collect_sample_shape by metis
qed

lemma snapshot_names_known:
  assumes "apply_scan clock res retention a = (a', snap)" and "map_of (sn_groups snap) k = Some s"
  shows "gmap_keys (sa_state_names s) \<subseteq> set all_state_names"
proof -
  obtain states where "sa_state_names s = state_names states"
    using assms by (rule apply_scan_group) (metis finish_group_frame)
  then show ?thesis
    using state_names_keys [of "[]"] by (simp add: state_names_def)
qed

lemma snapshot_names_bound:
  assumes "apply_scan clock res retention a = (a', snap)" and "s \<in> set (sn_list snap)"
  shows "length (sa_state_names s) \<le> 12"
proof -
  note wf = snapshot_wfI [OF assms(1)]
  from gmap_length_le_card [OF snapshot_sample_names [OF wf assms(2)]
      snapshot_names_known [OF assms(1) snapshot_sample [OF wf assms(2)]]]
  show ?thesis by (simp add: all_state_names_def)
qed

lemma collect_groups:
  assumes "apply_scan clock res retention a = (a', snap)"
  shows "(\<lambda>m. take 2 (m_labels m)) ` set (collect (publish snap r)) = (\<lambda>p. [p_name p, p_user p]) ` set (rs_procs res)"
proof -
  note wf = snapshot_wfI [OF assms]
  have nonempty: "\<exists>m. m \<in> set (collect_sample s)" for s
    by (rule exI [where x = "hd (collect_sample s)"]) (simp add: collect_sample_def collect_gauges_def Let_def)
  have "(\<lambda>m. take 2 (m_labels m)) ` set (collect_sample s) = {[k_name (sa_key s), k_user (sa_key s)]}" for s
    using collect_sample_shape(3) [of _ s] nonempty [of s] by auto
  then have "(\<Union>s \<in> set (sn_list snap). (\<lambda>m. take 2 (m_labels m)) ` set (collect_sample s))
      = (\<lambda>k. [k_name k, k_user k]) ` set (map sa_key (sn_list snap))"
    by auto
  then have "(\<lambda>m. take 2 (m_labels m)) ` set (collect (publish snap r))
      = (\<lambda>k. [k_name k, k_user k]) ` set (map sa_key (sn_list snap))"
    by (simp add: collect_publish image_UN)
  also have "\<dots> = (\<lambda>k. [k_name k, k_user k]) ` key_of ` set (rs_procs res)"
    unfolding snapshot_list_keys [OF wf] using snapshot_groups [OF assms] by simp
  finally show ?thesis
    by (simp add: image_image key_of_def)
qed

lemma collect_length:
  assumes "apply_scan clock res retention a = (a', snap)"
  shows "length (collect (publish snap r)) \<le> 36 * length (sn_groups snap)
    \<and> length (sn_groups snap) \<le> length (rs_procs res)"
proof -
  note wf = snapshot_wfI [OF assms]
  have each: "length (collect_sample s) \<le> 36" if "s \<in> set (sn_list snap)" for s
    using collect_sample_length [of s] snapshot_names_bound [OF assms that] by simp
  have "sum_list (map (length \<circ> collect_sample) (sn_list snap)) \<le> sum_list (map (\<lambda>_. 36) (sn_list snap))"
    by (rule sum_list_mono) (simp add: each)
  moreover have "length (sn_list snap) = length (sn_groups snap)"
    using wf by (simp add: snapshot_wf_def)
  moreover have "length (sn_groups snap) \<le> length (rs_procs res)"
    using gmap_length_le_card [of "sn_groups snap" "map key_of (rs_procs res)"] wf snapshot_groups [OF assms]
    by (simp add: snapshot_wf_def)
  ultimately show ?thesis
    by (simp add: collect_publish length_concat sum_list_const_mult [symmetric] sum_list_triv)
qed

text \<open>
  C14. A scrape shows exactly the groups of the last published scan, so a group that has gone leaves
  no stale series: the label pairs of the scraped metrics are those of the processes of that scan.
  Its size is bounded by the scan, however often it is made: at most thirty-six metrics for each group,
  and no more groups than processes. Before the first publication nothing is shown, and the other calls
  on the registry change nothing.
\<close>

theorem scrape_shows_current_groups:
  assumes "apply_scan clock res retention a = (a', snap)"
  shows "(\<lambda>m. take 2 (m_labels m)) ` set (collect (publish snap r)) = (\<lambda>p. [p_name p, p_user p]) ` set (rs_procs res)
    \<and> length (collect (publish snap r)) \<le> 36 * length (sn_groups snap)
    \<and> length (sn_groups snap) \<le> length (rs_procs res)
    \<and> collect registry_new = []
    \<and> collect (add_overrun r) = collect r \<and> collect (set_build_info v g r) = collect r"
  using collect_groups [OF assms] collect_length [OF assms]
  by (simp add: collect_def registry_new_def add_overrun_def set_build_info_def)

section \<open>Omitted, not zero\<close>

lemma block_series:
  "series ` set (collect_gauges s nu) =
    (\<lambda>d. (d, nu)) ` {''process_group_num_procs'', ''process_group_num_threads'', ''process_group_memory_rss_bytes'',
      ''process_group_memory_vsize_bytes'', ''process_group_memory_shared_bytes'', ''process_group_memory_data_bytes'',
      ''process_group_memory_swap_bytes'', ''process_group_oldest_start_time_seconds'',
      ''process_group_pss_coverage_ratio''}"
  "series ` set (collect_pss s nu) =
    (if 0 < sa_pss_read s
     then {(''process_group_memory_pss_bytes'', nu), (''process_group_memory_swap_pss_bytes'', nu)} else {})"
  "series ` set (collect_coverage s nu) =
    {(''process_group_fd_coverage_ratio'', nu), (''process_group_io_coverage_ratio'', nu)}"
  "series ` set (collect_fds s nu) =
    (if 0 < sa_fds_read s
     then insert (''process_group_open_fds'', nu)
       (if 0 < sa_max_fds s then {(''process_group_max_fds'', nu), (''process_group_worst_fd_ratio'', nu)} else {})
     else {})"
  "series ` set (collect_io s nu) =
    (if 0 < sa_io_read s
     then {(''process_group_read_bytes_total'', nu), (''process_group_write_bytes_total'', nu)} else {})"
  by (cases "0 < sa_pss_read s"; cases "0 < sa_fds_read s"; cases "0 < sa_max_fds s"; cases "0 < sa_io_read s";
      simp add: collect_blocks)+

lemma state_series:
  "series ` set (collect_states s nu) = (\<lambda>st. (''process_group_states'', nu @ [st])) ` fst ` set (sa_state_names s)"
  by (simp add: collect_states_def image_image case_prod_unfold)

lemma counter_series:
  "series ` set (collect_counters s nu) =
    {(''process_group_cpu_seconds_total'', nu @ [''user'']), (''process_group_cpu_seconds_total'', nu @ [''system'']),
     (''process_group_minor_page_faults_total'', nu), (''process_group_major_page_faults_total'', nu),
     (''process_group_context_switches_total'', nu @ [''voluntary'']),
     (''process_group_context_switches_total'', nu @ [''involuntary''])}"
  by (simp add: collect_counters_def)

lemma sample_series:
  assumes "nu = [k_name (sa_key s), k_user (sa_key s)]"
  shows "series ` set (collect_sample s) = series ` set (collect_gauges s nu) \<union> series ` set (collect_pss s nu)
    \<union> series ` set (collect_coverage s nu) \<union> series ` set (collect_fds s nu) \<union> series ` set (collect_states s nu)
    \<union> series ` set (collect_counters s nu) \<union> series ` set (collect_io s nu)"
  unfolding collect_sample_def Let_def assms set_append image_Un by (simp only: Un_assoc)

lemma optional_series:
  assumes "nu = [k_name (sa_key s), k_user (sa_key s)]"
  shows "(''process_group_memory_rss_bytes'', nu) \<in> series ` set (collect_sample s)"
    and "(''process_group_open_fds'', nu) \<in> series ` set (collect_sample s) \<longleftrightarrow> 0 < sa_fds_read s"
    and "(''process_group_memory_pss_bytes'', nu) \<in> series ` set (collect_sample s) \<longleftrightarrow> 0 < sa_pss_read s"
    and "(''process_group_read_bytes_total'', nu) \<in> series ` set (collect_sample s) \<longleftrightarrow> 0 < sa_io_read s"
  unfolding sample_series [OF assms] block_series state_series counter_series by (simp_all add: image_iff)

lemma group_series:
  assumes "snapshot_wf snap" and "map_of (sn_groups snap) k = Some s" and "nu = [k_name k, k_user k]"
  shows "(x, nu) \<in> series ` set (collect (publish snap r)) \<longleftrightarrow> (x, nu) \<in> series ` set (collect_sample s)"
proof
  assume "(x, nu) \<in> series ` set (collect (publish snap r))"
  then obtain m where m: "(x, nu) = series m" "m \<in> set (collect (publish snap r))" by blast
  from m(2) assms(1) obtain t where t: "map_of (sn_groups snap) (sa_key t) = Some t" "m \<in> set (collect_sample t)"
    by (rule collect_publish_metric)
  have "m_labels m = nu" using m(1) by (simp add: series_def)
  then have "sa_key t = k" using collect_sample_shape(3) [OF t(2)] assms(3) by simp
  then show "(x, nu) \<in> series ` set (collect_sample s)" using t m(1) assms(2) by simp
next
  assume x: "(x, nu) \<in> series ` set (collect_sample s)"
  have "s \<in> set (sn_list snap)"
    using assms(1) map_of_SomeD [OF assms(2)] by (force simp: snapshot_wf_def)
  with x show "(x, nu) \<in> series ` set (collect (publish snap r))" by (auto simp: collect_publish)
qed


end
