(* ===== verification/ScrapeCounters.thy ===== *)
theory ScrapeCounters
  imports MetricsProps
begin

text \<open>
  The counters as Prometheus sees them: values read at two scrapes, with scans, publications and
  the rounding to floating point in between. \<open>publish_run\<close> is the work of the scan loop on the
  aggregator and the registry.
\<close>

section \<open>The readers of an accumulator\<close>

text \<open>The six counters that are words, with the delta each adds up and the members that have it.\<close>

definition word_counters :: "((accum \<Rightarrow> u64) \<times> (process \<Rightarrow> u64) \<times> (process \<Rightarrow> bool)) list" where
  "word_counters =
     [(ac_minor_faults, p_d_minor_faults, \<lambda>_. True), (ac_major_faults, p_d_major_faults, \<lambda>_. True),
      (ac_vol_ctx_sw, p_d_vol_ctx_sw, p_have_status), (ac_invol_ctx_sw, p_d_invol_ctx_sw, p_have_status),
      (ac_read_bytes, p_d_read_bytes, p_have_io), (ac_write_bytes, p_d_write_bytes, p_have_io)]"

definition word_deltas :: "(process \<Rightarrow> u64) \<Rightarrow> (process \<Rightarrow> bool) \<Rightarrow> process list \<Rightarrow> u64 list" where
  "word_deltas d has ms = map d (filter (\<lambda>p. p_have_deltas p \<and> has p) ms)"

lemma fold_word_counter:
  assumes "(c, d, has) \<in> set word_counters"
  shows "c (fold (add_member sys now) ms a) = c a + sum_list (word_deltas d has ms)"
  using assms unfolding word_counters_def
  by (elim set_ConsD [elim_format] disjE)
     (auto simp: fold_accum fold_add_word word_deltas_def with_deltas_def conj_commute)

text \<open>No word counter of the group overflows in the scan.\<close>

definition counters_fit :: "aggregator \<Rightarrow> process list \<Rightarrow> group_key \<Rightarrow> bool" where
  "counters_fit a ps k \<longleftrightarrow>
     (\<forall>(c, d, has) \<in> set word_counters.
        unat (c (accum_of (ag_accums a) k)) + sum_list (map unat (word_deltas d has (members k ps))) < 2 ^ 64)"

definition accum_le :: "accum \<Rightarrow> accum \<Rightarrow> bool" where
  "accum_le a b \<longleftrightarrow>
     ac_utime_seconds a \<le> ac_utime_seconds b \<and> ac_stime_seconds a \<le> ac_stime_seconds b
     \<and> (\<forall>(c, d, has) \<in> set word_counters. c a \<le> c b)"

lemma accum_le_refl: "accum_le a a"
  by (auto simp: accum_le_def)

lemma accum_le_trans: "accum_le a b \<Longrightarrow> accum_le b c \<Longrightarrow> accum_le a c"
  unfolding accum_le_def by (blast intro: order_trans)

lemma sum_list_word_le:
  fixes ds :: "u64 list"
  assumes "unat v + sum_list (map unat ds) < 2 ^ 64"
  shows "v \<le> v + sum_list ds"
  using unat_sum_list [OF assms] by (simp add: word_le_nat_alt)

lemma next_accum_all_le:
  assumes "aggregator_inv a" and "map_of (ag_accums a) k = Some old" and "counters_fit a ps k"
    and "next_accum a now ps k = Some acc"
  shows "accum_le old acc"
proof -
  have word: "c old \<le> c acc" if c: "(c, d, has) \<in> set word_counters" for c d has
  proof (cases "members k ps = []")
    case True
    then show ?thesis using assms(2,4) by (simp add: next_accum_def)
  next
    case False
    have "acc = fold (add_member (ag_system a) now) (members k ps) old"
      using assms(2,4) False by (simp add: next_accum_def accum_of_def)
    moreover have "unat (c old) + sum_list (map unat (word_deltas d has (members k ps))) < 2 ^ 64"
      using assms(2,3) c by (auto simp: counters_fit_def accum_of_def)
    ultimately show ?thesis
      using sum_list_word_le fold_word_counter [OF c] by metis
  qed
  then show ?thesis
    using next_accum_le [OF assms(1,2,4)] by (auto simp: accum_le_def)
qed

text \<open>The counters of a scrape, as functions of the accumulator.\<close>

definition counter_readers :: "((string \<times> string list) \<times> (accum \<Rightarrow> float64)) list" where
  "counter_readers =
     [((''process_group_cpu_seconds_total'', [''user'']), ac_utime_seconds),
      ((''process_group_cpu_seconds_total'', [''system'']), ac_stime_seconds),
      ((''process_group_minor_page_faults_total'', []), float64_of_u64 \<circ> ac_minor_faults),
      ((''process_group_major_page_faults_total'', []), float64_of_u64 \<circ> ac_major_faults),
      ((''process_group_context_switches_total'', [''voluntary'']), float64_of_u64 \<circ> ac_vol_ctx_sw),
      ((''process_group_context_switches_total'', [''involuntary'']), float64_of_u64 \<circ> ac_invol_ctx_sw),
      ((''process_group_read_bytes_total'', []), float64_of_u64 \<circ> ac_read_bytes),
      ((''process_group_write_bytes_total'', []), float64_of_u64 \<circ> ac_write_bytes)]"

lemma counter_readers_distinct: "distinct (map fst counter_readers)"
  by (simp add: counter_readers_def)

lemma counter_readers_mono:
  assumes "(x, f) \<in> set counter_readers" and "accum_le a b"
  shows "f a \<le> f b"
  using assms unfolding counter_readers_def accum_le_def word_counters_def
  by (auto simp: float64_of_u64_mono)

lemma counter_metric_type:
  "m \<in> set (collect_gauges s nu) \<union> set (collect_pss s nu) \<union> set (collect_coverage s nu)
      \<union> set (collect_fds s nu) \<union> set (collect_states s nu) \<Longrightarrow> m_type m = GaugeValue"
  by (auto simp: collect_blocks collect_states_def split: if_split_asm)

lemma counter_metric_reader:
  assumes "m \<in> set (collect_sample s)" and "m_type m = CounterValue"
  obtains f where "((d_name (m_desc m), drop 2 (m_labels m)), f) \<in> set counter_readers"
    "m_value m = f (sa_accum s)"
proof -
  let ?nu = "[k_name (sa_key s), k_user (sa_key s)]"
  have "m \<in> set (collect_counters s ?nu) \<union> set (collect_io s ?nu)"
    using assms counter_metric_type [of m s ?nu]
    by (auto simp: collect_sample_def Let_def)
  then show thesis
    using that unfolding collect_counters_def collect_io_def counter_readers_def
    by (auto split: if_split_asm)
qed

section \<open>Runs\<close>

type_synonym scan_inputs = "(instant \<times> scan_res \<times> duration) list"

fun publish_run :: "scan_inputs \<Rightarrow> aggregator \<times> registry \<Rightarrow> aggregator \<times> registry" where
  "publish_run [] (a, r) = (a, r)"
| "publish_run ((clock, res, retention) # xs) (a, r) =
     (case apply_scan clock res retention a of (a', snap) \<Rightarrow> publish_run xs (a', publish snap r))"

text \<open>The group is not forgotten, and none of its counters overflows, in any of the scans.\<close>

fun continuous :: "group_key \<Rightarrow> scan_inputs \<Rightarrow> aggregator \<Rightarrow> bool" where
  "continuous k [] a \<longleftrightarrow> True"
| "continuous k ((clock, res, retention) # xs) a \<longleftrightarrow>
     (let a' = fst (apply_scan clock res retention a)
      in counters_fit a (rs_procs res) k \<and> map_of (ag_accums a') k \<noteq> None \<and> continuous k xs a')"

lemma publish_run_append: "publish_run (xs @ ys) ar = publish_run ys (publish_run xs ar)"
proof (induction xs arbitrary: ar)
  case (Cons x xs)
  then show ?case by (cases x; cases ar) (simp split: prod.split)
next
  case Nil
  then show ?case by (cases ar) simp
qed

lemma publish_run_inv: "publish_run xs (a, r) = (a', r') \<Longrightarrow> aggregator_inv a \<Longrightarrow> aggregator_inv a'"
proof (induction xs "(a, r)" arbitrary: a r rule: publish_run.induct)
  case (2 clock res retention xs a r)
  obtain a1 snap where a1: "apply_scan clock res retention a = (a1, snap)"
    by (cases "apply_scan clock res retention a")
  show ?case
    using "2.hyps" [OF a1 [symmetric]] "2.prems" aggregator_invariant_step [OF a1 "2.prems"(2)] by (simp add: a1)
qed simp

lemma publish_run_le:
  "publish_run xs (a, r) = (a', r') \<Longrightarrow> aggregator_inv a \<Longrightarrow> continuous k xs a \<Longrightarrow>
    map_of (ag_accums a) k = Some old \<Longrightarrow> \<exists>acc. map_of (ag_accums a') k = Some acc \<and> accum_le old acc"
proof (induction xs "(a, r)" arbitrary: a r old rule: publish_run.induct)
  case (2 clock res retention xs a r)
  obtain a1 snap where a1: "apply_scan clock res retention a = (a1, snap)"
    by (cases "apply_scan clock res retention a")
  have c: "counters_fit a (rs_procs res) k" "map_of (ag_accums a1) k \<noteq> None" "continuous k xs a1"
    using "2.prems"(3) by (simp_all add: a1 Let_def)
  then obtain mid where mid: "map_of (ag_accums a1) k = Some mid" by blast
  then have "next_accum a (apply_now clock res) (rs_procs res) k = Some mid"
    using apply_scan_accums [OF a1 "2.prems"(2), of k] by (auto split: option.split_asm if_split_asm)
  then have "accum_le old mid" by (rule next_accum_all_le [OF "2.prems"(2,4) c(1)])
  moreover obtain acc where "map_of (ag_accums a') k = Some acc" "accum_le mid acc"
    using "2.hyps" [OF a1 [symmetric]] "2.prems"(1) aggregator_invariant_step [OF a1 "2.prems"(2)] c(3) mid
    by (auto simp: a1)
  ultimately show ?case using accum_le_trans by blast
qed (auto intro: accum_le_refl)

text \<open>A counter scraped after a run is read from the accumulator the aggregator keeps.\<close>

lemma scraped_counter:
  assumes "publish_run (xs @ [x]) (a, r) = (a', r')" and "aggregator_inv a"
    and "m \<in> set (collect r')" and "m_type m = CounterValue"
  obtains k acc f where "map_of (ag_accums a') k = Some acc" "take 2 (m_labels m) = [k_name k, k_user k]"
    "((d_name (m_desc m), drop 2 (m_labels m)), f) \<in> set counter_readers" "m_value m = f acc"
proof -
  obtain clock res retention where x: "x = (clock, res, retention)" by (cases x)
  obtain a1 r1 where a1: "publish_run xs (a, r) = (a1, r1)" by (cases "publish_run xs (a, r)")
  obtain a2 snap where a2: "apply_scan clock res retention a1 = (a2, snap)"
    by (cases "apply_scan clock res retention a1")
  have run: "a2 = a'" "publish snap r1 = r'"
    using assms(1) by (simp_all add: publish_run_append a1 x a2)
  obtain s where s: "map_of (sn_groups snap) (sa_key s) = Some s" "m \<in> set (collect_sample s)"
    using assms(3) snapshot_wfI [OF a2] unfolding run(2) [symmetric] by (rule collect_publish_metric)
  have "map_of (ag_accums a') (sa_key s) = Some (sa_accum s)"
    using live_accum [OF a2 publish_run_inv [OF a1 assms(2)] s(1)] run(1) by simp
  moreover obtain f where "((d_name (m_desc m), drop 2 (m_labels m)), f) \<in> set counter_readers"
    "m_value m = f (sa_accum s)"
    using s(2) assms(4) by (rule counter_metric_reader)
  ultimately show thesis using that collect_sample_shape(3) [OF s(2)] by blast
qed

text \<open>
  C1. Counters never decrease from one scrape to a later one: whatever processes appear, exit and
  restart in the scans between two scrapes, each counter series that both scrapes contain has, at the
  later one, at least the value of the earlier one, for as long as its group is remembered and no
  64-bit total overflows. The rounding of the sums of seconds and of the exported values is included.
\<close>

theorem scraped_counters_never_decrease:
  assumes "aggregator_inv a" and "publish_run (xs @ [x]) (a, r) = (a1, r1)"
    and "publish_run (ys @ [y]) (a1, r1) = (a2, r2)"
    and "m1 \<in> set (collect r1)" and "m2 \<in> set (collect r2)" and "series m1 = series m2"
    and "m_type m1 = CounterValue" and "m_type m2 = CounterValue"
    and "m_labels m1 = k_name k # k_user k # ls" and "continuous k (ys @ [y]) a1"
  shows "m_value m1 \<le> m_value m2"
proof -
  have key: "k1 = k" if "take 2 (m_labels m1) = [k_name k1, k_user k1]" for k1
    using that assms(9) by simp
  have same: "m_labels m2 = m_labels m1" "d_name (m_desc m2) = d_name (m_desc m1)"
    using assms(6) by (simp_all add: series_def)
  obtain acc1 f where 1: "map_of (ag_accums a1) k = Some acc1"
    "((d_name (m_desc m1), drop 2 (m_labels m1)), f) \<in> set counter_readers" "m_value m1 = f acc1"
    using scraped_counter [OF assms(2,1,4,7)] key by metis
  note inv = publish_run_inv [OF assms(2,1)]
  obtain acc2 g where 2: "map_of (ag_accums a2) k = Some acc2"
    "((d_name (m_desc m1), drop 2 (m_labels m1)), g) \<in> set counter_readers" "m_value m2 = g acc2"
    using scraped_counter [OF assms(3) inv assms(5,8)] key unfolding same by metis
  have "g = f" using 1(2) 2(2) counter_readers_distinct by (metis eq_key_imp_eq_value)
  moreover have "accum_le acc1 acc2"
    using publish_run_le [OF assms(3) inv assms(10) 1(1)] 2(1) by simp
  ultimately show ?thesis
    using counter_readers_mono [OF 1(2)] 1(3) 2(3) by simp
qed

end
