(* ===== verification/Pipeline.thy ===== *)
theory Pipeline
  imports ScrapeCounters ScanProps
begin

text \<open>
  The way of a scan to the scrape: what \<^const>\<open>scan\<close> returns, folded by \<^const>\<open>apply_scan\<close>, published
  by \<^const>\<open>publish\<close> and read by \<^const>\<open>collect\<close> or from the instruments of the exporter itself.
\<close>

section \<open>The instruments\<close>

text \<open>The value a gauge shows after a sequence of calls, and how often a counter was incremented.\<close>

fun last_set :: "string \<Rightarrow> instrument_call list \<Rightarrow> float64 option" where
  "last_set g [] = None"
| "last_set g (c # cs) =
     (case last_set g cs of
        Some v \<Rightarrow> Some v
      | None \<Rightarrow> (case c of SetGauge g' v \<Rightarrow> if g' = g then Some v else None | _ \<Rightarrow> None))"

definition inc_count :: "string \<Rightarrow> instrument_call list \<Rightarrow> nat" where
  "inc_count c calls = count_list calls (Inc c)"

text \<open>The client library ends the program when a counter is given a negative number.\<close>

fun acceptable_call :: "instrument_call \<Rightarrow> bool" where
  "acceptable_call (Add c v) \<longleftrightarrow> 0 \<le> v"
| "acceptable_call (AddWith c ls v) \<longleftrightarrow> 0 \<le> v"
| "acceptable_call _ \<longleftrightarrow> True"

lemma last_set_append:
  "last_set g (xs @ ys) = (case last_set g ys of Some v \<Rightarrow> Some v | None \<Rightarrow> last_set g xs)"
  by (induction xs) (auto split: option.split)

lemma last_set_AddWith [simp]: "last_set g (map (\<lambda>(k, n). AddWith c [k] (f n)) errs) = None"
  by (induction errs) auto

lemma last_set_publish:
  "last_set ''process_exporter_procs_total'' (publish_calls s) = Some (float64_of_nat (sn_procs_total s))"
  "last_set ''process_exporter_procs_scanned'' (publish_calls s) = Some (float64_of_nat (sn_procs_scanned s))"
  "last_set ''process_exporter_procs_ignored'' (publish_calls s) = Some (float64_of_nat (sn_procs_ignored s))"
  "last_set ''process_exporter_procs_vanished'' (publish_calls s) = Some (float64_of_nat (sn_procs_vanished s))"
  "last_set ''process_exporter_procs_denied'' (publish_calls s) = Some (float64_of_nat (sn_procs_denied s))"
  "last_set ''process_exporter_groups_total'' (publish_calls s) = Some (float64_of_nat (length (sn_groups s)))"
  unfolding publish_calls_def by (simp_all add: last_set_append)

lemma float64_of_nat_exact: "n \<le> 2 ^ 53 \<Longrightarrow> float64_of_nat n = of_nat n"
  using float64_of_int_exact [of "int n"] by (simp add: float64_of_nat_def)

lemma float64_of_nat_nonneg [simp]: "0 \<le> float64_of_nat n"
  by (simp add: float64_of_nat_def float64_of_int_nonneg)

lemma publish_calls_acceptable: "list_all acceptable_call (publish_calls s)"
  by (auto simp: publish_calls_def list_all_iff)

lemma inc_count_publish: "inc_count ''process_exporter_scans_total'' (publish_calls s) = 1"
proof -
  have "count_list (map (\<lambda>(k, n). AddWith c [k] (f n)) errs) (Inc i) = 0" for c f i and errs :: "(string \<times> nat) list"
    by (induction errs) auto
  then show ?thesis by (simp add: inc_count_def publish_calls_def)
qed

section \<open>Snapshots report their scan\<close>

lemma snapshot_counts:
  assumes "apply_scan clock res retention a = (a', snap)"
  shows "sn_procs_total snap = rs_total res \<and> sn_procs_scanned snap = rs_scanned res
    \<and> sn_procs_ignored snap = rs_ignored res \<and> sn_procs_vanished snap = rs_vanished res
    \<and> sn_procs_denied snap = rs_denied res \<and> sn_read_errs snap = rs_read_errs res
    \<and> sn_scan_number snap = ag_scans a + 1 \<and> ag_scans a' = ag_scans a + 1"
  using assms by (auto simp: apply_scan_def Let_def split: prod.splits)

text \<open>
  C16. The exporter's own gauges account for every process: after a completed scan has been folded
  and published, the listed processes it shows are the scanned, ignored, vanished and denied ones
  together with the failed reads of \<^verbatim>\<open>stat\<close>, all of them exact numbers, and it shows no more groups
  than scanned processes. No counter is given a negative number, which would end the program.
\<close>

theorem self_metrics_account:
  assumes "scan sys lookup_id cfg f n w s = (s', Inr res)"
    and "apply_scan clock res retention a = (a', snap)" and "rs_total res \<le> 2 ^ 53"
    and "calls = rg_calls (publish snap r)"
  shows "\<exists>total_procs scanned ignored gone denied groups.
      last_set ''process_exporter_procs_total'' calls = Some (of_nat total_procs)
      \<and> last_set ''process_exporter_procs_scanned'' calls = Some (of_nat scanned)
      \<and> last_set ''process_exporter_procs_ignored'' calls = Some (of_nat ignored)
      \<and> last_set ''process_exporter_procs_vanished'' calls = Some (of_nat gone)
      \<and> last_set ''process_exporter_procs_denied'' calls = Some (of_nat denied)
      \<and> last_set ''process_exporter_groups_total'' calls = Some (of_nat groups)
      \<and> total_procs = scanned + ignored + gone + denied + gmap_count (rs_read_errs res) ''stat''
      \<and> groups \<le> scanned \<and> scanned = length (rs_procs res)
      \<and> list_all acceptable_call (publish_calls snap)"
proof (intro exI conjI)
  note sc = scan_outcomes [OF assms(1)] and sn = snapshot_counts [OF assms(2)]
  have wf: "snapshot_wf snap" by (rule snapshot_wfI [OF assms(2)])
  have groups: "length (sn_groups snap) \<le> rs_scanned res"
    using gmap_length_le_card [of "sn_groups snap" "map key_of (rs_procs res)"] wf
      snapshot_groups [OF assms(2)] sc by (simp add: snapshot_wf_def)
  have small: "rs_scanned res \<le> 2 ^ 53" "rs_ignored res \<le> 2 ^ 53" "rs_vanished res \<le> 2 ^ 53"
    "rs_denied res \<le> 2 ^ 53" "length (sn_groups snap) \<le> 2 ^ 53"
    using sc groups assms(3) by linarith+
  have calls: "last_set g calls = Some v" if "last_set g (publish_calls snap) = Some v" for g v
    using that by (simp add: assms(4) publish_def last_set_append)
  show "last_set ''process_exporter_procs_total'' calls = Some (of_nat (rs_total res))"
    by (rule calls) (simp add: last_set_publish sn float64_of_nat_exact [OF assms(3)])
  show "last_set ''process_exporter_procs_scanned'' calls = Some (of_nat (rs_scanned res))"
    by (rule calls) (simp add: last_set_publish sn float64_of_nat_exact [OF small(1)])
  show "last_set ''process_exporter_procs_ignored'' calls = Some (of_nat (rs_ignored res))"
    by (rule calls) (simp add: last_set_publish sn float64_of_nat_exact [OF small(2)])
  show "last_set ''process_exporter_procs_vanished'' calls = Some (of_nat (rs_vanished res))"
    by (rule calls) (simp add: last_set_publish sn float64_of_nat_exact [OF small(3)])
  show "last_set ''process_exporter_procs_denied'' calls = Some (of_nat (rs_denied res))"
    by (rule calls) (simp add: last_set_publish sn float64_of_nat_exact [OF small(4)])
  show "last_set ''process_exporter_groups_total'' calls = Some (of_nat (length (sn_groups snap)))"
    by (rule calls) (simp add: last_set_publish float64_of_nat_exact [OF small(5)])
  show "rs_total res = rs_scanned res + rs_ignored res + rs_vanished res + rs_denied res
      + gmap_count (rs_read_errs res) ''stat''" "rs_scanned res = length (rs_procs res)"
    using sc by simp_all
  show "length (sn_groups snap) \<le> rs_scanned res" by (rule groups)
  show "list_all acceptable_call (publish_calls snap)" by (rule publish_calls_acceptable)
qed

lemma publish_run_calls:
  "publish_run xs (a, r) = (a', r') \<Longrightarrow>
    (list_all acceptable_call (rg_calls r) \<longrightarrow> list_all acceptable_call (rg_calls r'))
    \<and> inc_count ''process_exporter_scans_total'' (rg_calls r')
        = inc_count ''process_exporter_scans_total'' (rg_calls r) + length xs
    \<and> ag_scans a' = ag_scans a + of_nat (length xs)
    \<and> (if xs = [] then rg_snap r' = rg_snap r
       else \<exists>snap. rg_snap r' = Some snap \<and> sn_scan_number snap = ag_scans a')"
proof (induction xs "(a, r)" arbitrary: a r rule: publish_run.induct)
  case (2 clock res retention xs a r)
  obtain a1 snap where a1: "apply_scan clock res retention a = (a1, snap)"
    by (cases "apply_scan clock res retention a")
  have calls: "rg_calls (publish snap r) = rg_calls r @ publish_calls snap" "rg_snap (publish snap r) = Some snap"
    by (simp_all add: publish_def)
  have inc: "inc_count ''process_exporter_scans_total'' (rg_calls (publish snap r))
      = inc_count ''process_exporter_scans_total'' (rg_calls r) + 1"
    using inc_count_publish [of snap] by (simp add: calls inc_count_def)
  have run: "publish_run xs (a1, publish snap r) = (a', r')" using "2.prems" by (simp add: a1)
  note ih = "2.hyps" [OF a1 [symmetric] run]
  have scans: "ag_scans a1 = ag_scans a + 1" "sn_scan_number snap = ag_scans a + 1"
    using snapshot_counts [OF a1] by simp_all
  show ?case
  proof (cases "xs = []")
    case True
    then show ?thesis using run inc scans by (auto simp: calls publish_calls_acceptable)
  next
    case False
    then show ?thesis using ih inc scans by (auto simp: calls publish_calls_acceptable algebra_simps)
  qed
qed simp

lemma publish_run_numbers:
  assumes "publish_run xs (aggregator_new sys, registry_new) = (a, r)"
  shows "map_option sn_scan_number (registry_snapshot r) = (if xs = [] then None else Some (of_nat (length xs)))"
  using publish_run_calls [OF assms]
  by (auto simp: registry_new_def aggregator_new_def registry_snapshot_def split: if_split_asm)

text \<open>
  The instruments follow the scans: from the start of the program, after any sequence of
  published scans, the counter of scans has been incremented once for each of them, the snapshot on
  display is numbered by their count (there is none before the first), and no counter was ever given
  a negative number, which would end the program.
\<close>

lemma scans_are_counted:
  assumes "publish_run xs (aggregator_new sys, registry_new) = (a, r)"
  shows "inc_count ''process_exporter_scans_total'' (rg_calls r) = length xs
    \<and> list_all acceptable_call (rg_calls r)
    \<and> map_option sn_scan_number (registry_snapshot r) = (if xs = [] then None else Some (of_nat (length xs)))"
  using publish_run_calls [OF assms] publish_run_numbers [OF assms]
  by (simp add: registry_new_def inc_count_def)

section \<open>Label values\<close>

definition fixed_label_values :: "string set" where
  "fixed_label_values =
     set all_state_names \<union> {''user'', ''system'', ''voluntary'', ''involuntary''}"

lemma collect_sample_labels:
  assumes "m \<in> set (collect_sample s)" and "gmap_keys (sa_state_names s) \<subseteq> set all_state_names"
  shows "\<exists>ls. m_labels m = k_name (sa_key s) # k_user (sa_key s) # ls \<and> set ls \<subseteq> fixed_label_values"
proof -
  let ?nu = "[k_name (sa_key s), k_user (sa_key s)]"
  have "series m \<in> series ` set (collect_sample s)" using assms(1) by simp
  then have "m_labels m = ?nu \<or> (\<exists>x \<in> fixed_label_values. m_labels m = ?nu @ [x])"
    using assms(2) unfolding sample_series [OF refl] block_series state_series counter_series fixed_label_values_def
    by (auto simp: series_def split: if_split_asm)
  then show ?thesis by auto
qed

text \<open>
  C8. From \<^verbatim>\<open>/proc\<close> to the scrape every label is legal and none is an identifier that grows without
  bound: after a scan from a state of the invariant, the first label of every scraped metric is a
  sanitised name, the second a non-empty user, and a third one is one of sixteen fixed words.
\<close>

theorem scraped_labels_legal:
  assumes "scanner_inv s" and "unat (generation (sc_state s)) + 1 < 2 ^ 64"
    and "scan sys lookup_id cfg f n w s = (s', Inr res)"
    and "apply_scan clock res retention a = (a', snap)" and "m \<in> set (collect (publish snap r))"
  shows "\<exists>name user ls. m_labels m = name # user # ls \<and> label_value name \<and> user \<noteq> []
    \<and> set ls \<subseteq> fixed_label_values"
proof -
  note wf = snapshot_wfI [OF assms(4)]
  obtain t where t: "map_of (sn_groups snap) (sa_key t) = Some t" "m \<in> set (collect_sample t)"
    using assms(5) wf by (rule collect_publish_metric)
  have "gmap_keys (sa_state_names t) \<subseteq> set all_state_names"
    using snapshot_names_known [OF assms(4) t(1)] .
  with t(2) obtain ls where ls: "m_labels m = k_name (sa_key t) # k_user (sa_key t) # ls"
    "set ls \<subseteq> fixed_label_values" using collect_sample_labels by blast
  have "sa_key t \<in> key_of ` set (rs_procs res)"
    using snapshot_groups [OF assms(4)] t(1) by (metis domI dom_map_of_conv_image_fst set_map)
  then obtain p where p: "p \<in> set (rs_procs res)" "sa_key t = key_of p" by blast
  have "process_ok p" using scan_keeps_inv [OF assms(1-3)] p(1) by simp
  with ls p(2) show ?thesis by (auto simp: process_ok_def key_of_def)
qed

end
