(* ===== verification/Api.thy ===== *)
theory Api
  imports Pipeline "HOL-Library.Multiset" "HOL-Library.List_Lexorder" "HOL-Library.Char_ord"
begin

text \<open>
  \<^verbatim>\<open>internal/api/api.go\<close>: the routes and the handlers. A handler is a function from what it reads to
  the response it writes; the JSON encoder is not modelled, so a body is the value that is encoded.
\<close>

section \<open>Responses\<close>

datatype json_value =
    JString string
  | JBool bool
  | JInt int
  | JUint u64
  | JFloat float64
  | JTime instant
  | JStrings "string list"
  | JSamples "sample list"
  | JCounts "(string, nat) gmap"

datatype body = Object "(string \<times> json_value) list" | ConfigBody config

record response =
  rp_code :: nat
  rp_content_type :: string
  rp_body :: body

definition status_ok :: nat where "status_ok = 200"
definition status_service_unavailable :: nat where "status_service_unavailable = 503"

definition write_json :: "nat \<Rightarrow> body \<Rightarrow> response" where
  "write_json code v =
     \<lparr>rp_code = code, rp_content_type = ''application/json; charset=utf-8'', rp_body = v\<rparr>"

section \<open>The server\<close>

record api_deps =
  dp_config :: config
  dp_metrics :: registry
  dp_version :: string
  dp_started_at :: instant

datatype endpoint =
    MetricsHandler | HandleGroups | HandleConfig | HandleStats | HandleLivez | HandleReadyz | HandleIndex

text \<open>
  \<^verbatim>\<open>ServeMux.Handle\<close> panics (\<^const>\<open>None\<close>) when the pattern is registered already. Two paths are different
  patterns exactly when they are different texts, provided they are plain: a blank would begin a method, a
  brace a wildcard and a percent sign an escape, and what registration makes of those is outside the model.
\<close>

definition plain_path :: "string \<Rightarrow> bool" where
  "plain_path p \<longleftrightarrow> list_all (\<lambda>c. c \<notin> {CHR '' '', CHR 0x09, CHR ''{'', CHR ''}'', CHR ''%''}) p"

definition mux_handle ::
  "string \<Rightarrow> endpoint \<Rightarrow> (string \<times> endpoint) list option \<Rightarrow> (string \<times> endpoint) list option" where
  "mux_handle pattern h m =
     (case m of None \<Rightarrow> None
      | Some rs \<Rightarrow> if pattern \<in> set (map fst rs) then None else Some (rs @ [(pattern, h)]))"

definition routes :: "server_config \<Rightarrow> (string \<times> endpoint) list option" where
  "routes cfg =
     mux_handle ''/'' HandleIndex
       (mux_handle ''/readyz'' HandleReadyz
         (mux_handle ''/livez'' HandleLivez
           (mux_handle ''/stats'' HandleStats
             (mux_handle ''/config'' HandleConfig
               (mux_handle ''/groups'' HandleGroups
                 (mux_handle (c_metrics_path cfg) MetricsHandler (Some [])))))))"

record api_server =
  sv_cfg :: server_config
  sv_deps :: api_deps
  sv_addr :: string
  sv_routes :: "(string \<times> endpoint) list"
  sv_read_header_timeout :: duration

text \<open>\<^const>\<open>None\<close> is the panic of the registration.\<close>

definition api_new :: "server_config \<Rightarrow> api_deps \<Rightarrow> api_server option" where
  "api_new cfg d =
     (case routes cfg of
        None \<Rightarrow> None
      | Some rs \<Rightarrow> Some \<lparr>sv_cfg = cfg, sv_deps = d, sv_addr = c_listen cfg, sv_routes = rs,
          sv_read_header_timeout = 10 * second\<rparr>)"

text \<open>
  \<^verbatim>\<open>Run\<close> waits for the first of two events. After a cancellation it shuts the server down with ten
  seconds of grace and ignores what that returns.
\<close>

datatype run_event = ServeEnds "go_error option" | ContextDone

fun error_is :: "go_error \<Rightarrow> go_error \<Rightarrow> bool" where
  "error_is (Wrap s e) target \<longleftrightarrow> Wrap s e = target \<or> error_is e target"
| "error_is e target \<longleftrightarrow> e = target"

definition err_server_closed :: go_error where
  "err_server_closed = ErrorString ''http: Server closed''"

definition api_run :: "run_event \<Rightarrow> go_error option" where
  "api_run ev =
     (case ev of
        ServeEnds err \<Rightarrow>
          (case err of Some e \<Rightarrow> if error_is e err_server_closed then None else Some e | None \<Rightarrow> None)
      | ContextDone \<Rightarrow> None)"

section \<open>Handlers\<close>

text \<open>\<open>now\<close> is the clock at the request.\<close>

definition handle_index :: "api_server \<Rightarrow> instant \<Rightarrow> response" where
  "handle_index s now =
     write_json status_ok (Object
       [(''version'', JString (dp_version (sv_deps s))),
        (''started_at'', JTime (dp_started_at (sv_deps s))),
        (''uptime'', JString (duration_string
           (duration_truncate (time_sub now (dp_started_at (sv_deps s))) second))),
        (''endpoints'', JStrings [c_metrics_path (sv_cfg s), ''/groups'', ''/config'', ''/stats'', ''/livez'', ''/readyz''])])"

definition no_scan_yet :: response where
  "no_scan_yet = write_json status_service_unavailable (Object [(''error'', JString ''no scan has completed yet'')])"

text \<open>The comparison the query selects.\<close>

definition cpu_seconds :: "sample \<Rightarrow> float64" where
  "cpu_seconds s = fadd (ac_utime_seconds (sa_accum s)) (ac_stime_seconds (sa_accum s))"

definition group_less :: "string \<Rightarrow> sample \<Rightarrow> sample \<Rightarrow> bool" where
  "group_less q a b =
     (if q = ''rss'' \<or> q = ''memory'' then sa_rss_bytes a > sa_rss_bytes b
      else if q = ''procs'' then sa_num_procs a > sa_num_procs b
      else if q = ''fds'' then sa_open_fds a > sa_open_fds b
      else if q = ''name'' then k_name (sa_key a) < k_name (sa_key b)
      else cpu_seconds a > cpu_seconds b)"

text \<open>\<open>sort_slice\<close> is \<^verbatim>\<open>sort.Slice\<close>, which leaves the order of equal elements open.\<close>

definition handle_groups ::
  "((sample \<Rightarrow> sample \<Rightarrow> bool) \<Rightarrow> sample list \<Rightarrow> sample list) \<Rightarrow> api_server \<Rightarrow> string \<Rightarrow> response" where
  "handle_groups sort_slice s q =
     (case registry_snapshot (dp_metrics (sv_deps s)) of
        None \<Rightarrow> no_scan_yet
      | Some snap \<Rightarrow>
          write_json status_ok (Object
            [(''scan_at'', JTime (sn_scan_at snap)),
             (''duration'', JString (duration_string (sn_duration snap))),
             (''groups'', JSamples (sort_slice (group_less q) (sn_list snap)))]))"

definition handle_config :: "api_server \<Rightarrow> response" where
  "handle_config s = write_json status_ok (ConfigBody (dp_config (sv_deps s)))"

definition handle_stats :: "api_server \<Rightarrow> response" where
  "handle_stats s =
     (case registry_snapshot (dp_metrics (sv_deps s)) of
        None \<Rightarrow> no_scan_yet
      | Some snap \<Rightarrow>
          write_json status_ok (Object
            [(''scan_at'', JTime (sn_scan_at snap)),
             (''scan_number'', JUint (sn_scan_number snap)),
             (''duration'', JString (duration_string (sn_duration snap))),
             (''self_cpu_secs'', JFloat (sn_self_cpu snap)),
             (''procs_total'', JInt (int (sn_procs_total snap))),
             (''procs_scanned'', JInt (int (sn_procs_scanned snap))),
             (''procs_ignored'', JInt (int (sn_procs_ignored snap))),
             (''procs_vanished'', JInt (int (sn_procs_vanished snap))),
             (''procs_denied'', JInt (int (sn_procs_denied snap))),
             (''read_errors'', JCounts (sn_read_errs snap)),
             (''groups'', JInt (int (length (sn_groups snap)))),
             (''names_seen'', JInt (int (sn_names_seen snap))),
             (''state_entries'', JInt (int (sn_state_entries snap)))]))"

definition handle_livez :: "api_server \<Rightarrow> response" where
  "handle_livez s = write_json status_ok (Object [(''status'', JString ''ok'')])"

definition handle_readyz :: "api_server \<Rightarrow> response" where
  "handle_readyz s =
     (let snap = registry_snapshot (dp_metrics (sv_deps s));
          ready = (case snap of None \<Rightarrow> False | Some sn \<Rightarrow> 2 \<le> sn_scan_number sn);
          code = (if \<not> ready then status_service_unavailable else status_ok);
          n = (case snap of None \<Rightarrow> 0 | Some sn \<Rightarrow> sn_scan_number sn)
      in write_json code (Object
           [(''ready'', JBool ready), (''scans'', JUint n),
            (''reason'', JString ''counter values require at least two scans'')]))"

section \<open>Routing\<close>

definition fixed_routes :: "string list" where
  "fixed_routes = [''/groups'', ''/config'', ''/stats'', ''/livez'', ''/readyz'', ''/'']"

lemma routes_eq:
  "routes cfg =
     (if c_metrics_path cfg \<in> set fixed_routes then None
      else Some ((c_metrics_path cfg, MetricsHandler)
        # zip fixed_routes [HandleGroups, HandleConfig, HandleStats, HandleLivez, HandleReadyz, HandleIndex]))"
  by (auto simp: routes_def mux_handle_def fixed_routes_def)

text \<open>
  C38. A configuration that passes validation, with a plain metrics path, starts a server whose routes
  are the metrics path and the fixed paths, each once, and whose index lists all of them but itself;
  except that when the metrics path is one of the fixed paths, the start panics.
\<close>

theorem routes_registered:
  assumes "validate rc stat_path c = []" and "plain_path (c_metrics_path (c_server c))"
    and "path = c_metrics_path (c_server c)"
  shows "if path \<in> set fixed_routes then api_new (c_server c) d = None
     else \<exists>s. api_new (c_server c) d = Some s \<and> sv_addr s \<noteq> []
       \<and> map fst (sv_routes s) = path # fixed_routes \<and> distinct (map fst (sv_routes s))
       \<and> list_all (\<lambda>p. has_prefix p ''/'') (map fst (sv_routes s))
       \<and> map_of (sv_routes s) path = Some MetricsHandler
       \<and> rp_code (handle_index s now) = 200
       \<and> (\<exists>kvs. rp_body (handle_index s now) = Object kvs
            \<and> map_of kvs ''endpoints'' = Some (JStrings (map fst (butlast (sv_routes s)))))"
proof -
  have valid: "c_listen (c_server c) \<noteq> []" "has_prefix path ''/''"
    using assms(1,3) by (simp_all add: validate_def check_Nil)
  show ?thesis
  proof (cases "path \<in> set fixed_routes")
    case True
    then show ?thesis by (simp add: api_new_def routes_eq assms(3))
  next
    case False
    then show ?thesis
      using valid assms(3)
      by (simp add: api_new_def routes_eq handle_index_def write_json_def status_ok_def)
         (auto simp: fixed_routes_def has_prefix_iff)
  qed
qed

text \<open>
  C17. Readiness: after any sequence of published scans the server is ready exactly when there were at
  least two, and the endpoints that show a scan are unavailable exactly before the first; liveness is
  unconditional.
\<close>

theorem ready_after_two_scans:
  assumes "publish_run xs (aggregator_new sys, registry_new) = (a, r)" and "length xs < 2 ^ 64"
    and "dp_metrics (sv_deps s) = r"
  shows "rp_code (handle_readyz s) = (if 2 \<le> length xs then 200 else 503)
    \<and> rp_code (handle_groups sort_slice s q) = (if xs = [] then 503 else 200)
    \<and> rp_code (handle_stats s) = (if xs = [] then 503 else 200)
    \<and> rp_code (handle_livez s) = 200"
proof -
  have num: "map_option sn_scan_number (registry_snapshot r) = (if xs = [] then None else Some (of_nat (length xs)))"
    using publish_run_numbers [OF assms(1)] .
  have two: "(2::u64) \<le> of_nat (length xs) \<longleftrightarrow> 2 \<le> length xs"
    using assms(2) by (simp add: word_le_nat_alt unsigned_of_nat take_bit_eq_mod)
  show ?thesis
  proof (cases "registry_snapshot r")
    case None
    then have "xs = []" using num by (simp split: if_split_asm)
    with None show ?thesis
      by (simp add: handle_readyz_def handle_groups_def handle_stats_def handle_livez_def no_scan_yet_def
          write_json_def status_ok_def status_service_unavailable_def assms(3))
  next
    case (Some snap)
    then have "xs \<noteq> []" "sn_scan_number snap = of_nat (length xs)" using num by (simp_all split: if_split_asm)
    with Some two show ?thesis
      by (simp add: handle_readyz_def handle_groups_def handle_stats_def handle_livez_def
          write_json_def status_ok_def status_service_unavailable_def assms(3))
  qed
qed

section \<open>Sorting\<close>

definition weak_order :: "('a \<Rightarrow> 'a \<Rightarrow> bool) \<Rightarrow> bool" where
  "weak_order lt \<longleftrightarrow>
     (\<forall>a b. lt a b \<longrightarrow> \<not> lt b a) \<and> (\<forall>a b c. \<not> lt a b \<longrightarrow> \<not> lt b c \<longrightarrow> \<not> lt a c)"

text \<open>The documented behaviour of \<^verbatim>\<open>sort.Slice\<close>.\<close>

definition sorts_slices :: "(('a \<Rightarrow> 'a \<Rightarrow> bool) \<Rightarrow> 'a list \<Rightarrow> 'a list) \<Rightarrow> bool" where
  "sorts_slices f \<longleftrightarrow>
     (\<forall>lt xs. weak_order lt \<longrightarrow> mset (f lt xs) = mset xs \<and> sorted_wrt (\<lambda>a b. \<not> lt b a) (f lt xs))"

lemma weak_order_key:
  fixes f :: "'a \<Rightarrow> 'b::linorder"
  shows "weak_order (\<lambda>a b. f b < f a)" and "weak_order (\<lambda>a b. f a < f b)"
  by (auto simp: weak_order_def)

lemma group_less_weak_order: "weak_order (group_less q)"
  unfolding group_less_def [abs_def]
  by (cases "q = ''rss'' \<or> q = ''memory''"; cases "q = ''procs''"; cases "q = ''fds''"; cases "q = ''name''")
     (simp_all only: if_True if_False weak_order_key simp_thms)


end
