(* ===== verification/Load.thy ===== *)
theory Load
  imports Namer GoIO
begin

text \<open>
  The effectful part of \<^verbatim>\<open>internal/config/load.go\<close>: reading, decoding, normalising and validating a
  configuration file. The YAML and JSON decoders, which fill the fields a document mentions of the
  value they are given, are the parameter \<open>unmarshal\<close>.
\<close>

datatype format = Yaml | Json

type_synonym unmarshaler = "format \<Rightarrow> string \<Rightarrow> config \<Rightarrow> go_error + config"

datatype load_error = ReadFailed go_error | ParseFailed go_error | Invalid "config_error list"

text \<open>\<^verbatim>\<open>filepath.Ext\<close>: from the last dot of the last element of the path.\<close>

fun ext_rev :: "string \<Rightarrow> string \<Rightarrow> string" where
  "ext_rev [] acc = []"
| "ext_rev (c # s) acc =
     (if c = CHR ''/'' then [] else if c = CHR ''.'' then c # acc else ext_rev s (c # acc))"

definition path_ext :: "string \<Rightarrow> string" where
  "path_ext path = ext_rev (rev path) []"

text \<open>
  \<^verbatim>\<open>strings.EqualFold\<close> against an ASCII text: letters match in either case, and the two letters that
  fold to a character outside ASCII match that one too (U+017F for s, U+212A for k).
\<close>

definition lower_char :: "char \<Rightarrow> char" where
  "lower_char c = (if 65 \<le> (of_char c :: nat) \<and> (of_char c :: nat) \<le> 90 then char_of (of_char c + 32 :: nat) else c)"

fun equal_fold_ascii :: "string \<Rightarrow> string \<Rightarrow> bool" where
  "equal_fold_ascii s [] \<longleftrightarrow> s = []"
| "equal_fold_ascii s (t # ts) \<longleftrightarrow>
     (case s of
        [] \<Rightarrow> False
      | c # s' \<Rightarrow>
          if lower_char c = lower_char t then equal_fold_ascii s' ts
          else if lower_char t = CHR ''s'' \<and> take 2 s = [CHR 0xC5, CHR 0xBF] then equal_fold_ascii (drop 2 s) ts
          else if lower_char t = CHR ''k'' \<and> take 3 s = [CHR 0xE2, CHR 0x84, CHR 0xAA]
          then equal_fold_ascii (drop 3 s) ts
          else False)"

definition parse :: "compiler \<Rightarrow> (string \<Rightarrow> path_stat) \<Rightarrow> unmarshaler \<Rightarrow> string \<Rightarrow> format \<Rightarrow> load_error + config" where
  "parse rc stat_path unmarshal data fmt =
     (case unmarshal fmt data default_config of
        Inl e \<Rightarrow> Inl (ParseFailed e)
      | Inr cfg0 \<Rightarrow>
          (let cfg = normalise cfg0; errs = validate rc stat_path cfg
           in if errs \<noteq> [] then Inl (Invalid errs) else Inr cfg))"

definition load_format :: "string \<Rightarrow> format" where
  "load_format path = (if equal_fold_ascii (path_ext path) ''.json'' then Json else Yaml)"

text \<open>\<open>data\<close> is what \<^verbatim>\<open>os.ReadFile\<close> returns for the path.\<close>

definition load ::
  "compiler \<Rightarrow> (string \<Rightarrow> path_stat) \<Rightarrow> unmarshaler \<Rightarrow> string \<Rightarrow> go_error + string \<Rightarrow> load_error + config" where
  "load rc stat_path unmarshal path data =
     (case data of
        Inl e \<Rightarrow> Inl (ReadFailed e)
      | Inr bytes \<Rightarrow> parse rc stat_path unmarshal bytes (load_format path))"

section \<open>Lemmas\<close>

text \<open>A configuration in force: validated when it was read, and in normal form.\<close>

definition sound_config :: "compiler \<Rightarrow> config \<Rightarrow> bool" where
  "sound_config rc cfg \<longleftrightarrow> (\<exists>stat_path. validate rc stat_path cfg = []) \<and> normalise cfg = cfg"

lemma load_sound: "load rc stat_path unmarshal path data = Inr cfg \<Longrightarrow> sound_config rc cfg"
  by (auto simp: load_def parse_def Let_def sound_config_def normalise_idempotent
      split: sum.split_asm if_split_asm)

text \<open>
  A loaded configuration is usable: whatever the file holds and however it is decoded, a load that
  succeeds returns a configuration in normal form that passed validation, on which the constructors of
  the filter and of the namer succeed; a file that cannot be read, cannot be decoded or does not pass
  yields the error of that stage and no configuration.
\<close>

theorem load_outcomes:
  "(case load rc stat_path unmarshal path data of
      Inr cfg \<Rightarrow> validate rc stat_path cfg = [] \<and> normalise cfg = cfg
        \<and> (\<exists>f. filter_new rc (c_filter cfg) = Inr f) \<and> (\<exists>n. namer_new rc (c_naming cfg) = Inr n)
    | Inl (ReadFailed e) \<Rightarrow> data = Inl e
    | Inl (ParseFailed e) \<Rightarrow> \<exists>bytes. data = Inr bytes \<and> unmarshal (load_format path) bytes default_config = Inl e
    | Inl (Invalid errs) \<Rightarrow> \<exists>bytes cfg. data = Inr bytes \<and> unmarshal (load_format path) bytes default_config = Inr cfg
        \<and> errs = validate rc stat_path (normalise cfg) \<and> errs \<noteq> [])"
proof (cases "load rc stat_path unmarshal path data")
  case (Inr cfg)
  then have v: "validate rc stat_path cfg = []" "normalise cfg = cfg"
    by (auto simp: load_def parse_def Let_def normalise_idempotent split: sum.split_asm if_split_asm)
  with Inr validated_constructs [OF v(1)] show ?thesis by auto
next
  case (Inl e)
  then show ?thesis
    by (auto simp: load_def parse_def Let_def split: sum.split_asm if_split_asm load_error.split)
qed

end
