(* ===== verification/Watcher.thy ===== *)
theory Watcher
  imports Load GoTime
begin

text \<open>
  \<^verbatim>\<open>internal/config/watcher.go\<close>: the reloading of the configuration and its delivery to subscribers.
  The delivery runs concurrently with the subscribers, which may take a value between any two of
  its channel operations; \<open>watcher_step\<close> is that interleaving.
\<close>

section \<open>Channels of capacity one\<close>

text \<open>A send and a receive of a \<^verbatim>\<open>select\<close> with a \<^verbatim>\<open>default\<close>: the channel after it, and what happened.\<close>

type_synonym 'a chan = "'a option"

definition try_send :: "'a \<Rightarrow> 'a chan \<Rightarrow> 'a chan \<times> bool" where
  "try_send v ch = (case ch of None \<Rightarrow> (Some v, True) | Some old \<Rightarrow> (Some old, False))"

definition try_recv :: "'a chan \<Rightarrow> 'a chan \<times> 'a option" where
  "try_recv ch = (None, ch)"

definition chan_items :: "'a chan \<Rightarrow> 'a list" where
  "chan_items ch = (case ch of None \<Rightarrow> [] | Some v \<Rightarrow> [v])"

text \<open>What the publisher relies on; \<open>items\<close> are the values that are in the channel.\<close>

locale slot_channel =
  fixes send :: "'a \<Rightarrow> 'c \<Rightarrow> 'c \<times> bool"
    and recv :: "'c \<Rightarrow> 'c \<times> 'a option"
    and items :: "'c \<Rightarrow> 'a list"
  assumes send_free: "items ch = [] \<Longrightarrow> items (fst (send v ch)) = [v] \<and> snd (send v ch)"
    and send_full: "items ch \<noteq> [] \<Longrightarrow> send v ch = (ch, False)"
    and recv_empties: "items (fst (recv ch)) = []"
    and recv_takes: "items ch = (case snd (recv ch) of None \<Rightarrow> [] | Some v \<Rightarrow> [v])"
begin

text \<open>The three operations of \<^verbatim>\<open>publish\<close> on one channel leave exactly the new value in it.\<close>

lemma replace_newest:
  "items (case send v ch of (ch1, sent) \<Rightarrow>
     if sent then ch1 else fst (send v (fst (recv ch1)))) = [v]"
  using send_free [of ch v] send_full [of ch v] send_free [of "fst (recv ch)" v] recv_empties [of ch]
  by (cases "items ch = []") (auto simp: case_prod_unfold)

lemma send_succeeds_iff: "snd (send v ch) \<longleftrightarrow> items ch = []"
  using send_free [of ch v] send_full [of ch v] by (cases "items ch = []") auto

end

interpretation chan: slot_channel try_send try_recv chan_items
  by unfold_locales (auto simp: try_send_def try_recv_def chan_items_def split: option.splits)

section \<open>The watcher\<close>

record watcher =
  wt_path :: string
  wt_cur :: config
  wt_mtime :: int
  wt_size :: int
  wt_subs :: "config chan list"

text \<open>What the file system answers during a reload: \<^verbatim>\<open>os.Stat\<close> and \<^verbatim>\<open>os.ReadFile\<close> of the file, and
  \<^verbatim>\<open>os.Stat\<close> of the paths a configuration names.\<close>

record file_view =
  fv_stat :: "(int \<times> int) option"
  fv_data :: "go_error + string"
  fv_paths :: "string \<Rightarrow> path_stat"

definition watcher_new :: "string \<Rightarrow> config \<Rightarrow> (int \<times> int) option \<Rightarrow> watcher" where
  "watcher_new path initial stat =
     (let (mtime, sz) = (case stat of None \<Rightarrow> (zero_time, 0) | Some ms \<Rightarrow> ms)
      in \<lparr>wt_path = path, wt_cur = initial, wt_mtime = mtime, wt_size = sz, wt_subs = []\<rparr>)"

definition current :: "watcher \<Rightarrow> config" where
  "current w = wt_cur w"

definition subscribe :: "watcher \<Rightarrow> watcher" where
  "subscribe w = w\<lparr>wt_subs := wt_subs w @ [None]\<rparr>"

definition publish_channel :: "config \<Rightarrow> config chan \<Rightarrow> config chan" where
  "publish_channel cfg ch =
     (case try_send cfg ch of (ch1, sent) \<Rightarrow>
        if sent then ch1 else fst (try_send cfg (fst (try_recv ch1))))"

definition publish_config :: "config \<Rightarrow> watcher \<Rightarrow> watcher" where
  "publish_config cfg w = w\<lparr>wt_subs := map (publish_channel cfg) (wt_subs w)\<rparr>"

text \<open>\<open>reload\<close> up to its publication: the watcher, and the configuration to publish if there is one.\<close>

definition reload_file ::
  "compiler \<Rightarrow> unmarshaler \<Rightarrow> bool \<Rightarrow> file_view \<Rightarrow> watcher \<Rightarrow> watcher \<times> config option" where
  "reload_file rc unmarshal force v w =
     (if wt_path w = [] then (w, None)
      else case fv_stat v of
        None \<Rightarrow> (w, None)
      | Some (mtime, sz) \<Rightarrow>
          let same = (mtime = wt_mtime w \<and> sz = wt_size w)
          in if same \<and> \<not> force then (w, None)
             else case load rc (fv_paths v) unmarshal (wt_path w) (fv_data v) of
               Inl _ \<Rightarrow> (w, None)
             | Inr cfg \<Rightarrow>
                 let prev = wt_cur w; w1 = w\<lparr>wt_mtime := mtime, wt_size := sz\<rparr>
                 in if config_equal (Some prev) (Some cfg) then (w1, None)
                    else (w1\<lparr>wt_cur := cfg\<rparr>, Some cfg))"

definition reload :: "compiler \<Rightarrow> unmarshaler \<Rightarrow> bool \<Rightarrow> file_view \<Rightarrow> watcher \<Rightarrow> watcher" where
  "reload rc unmarshal force v w =
     (case reload_file rc unmarshal force v w of
        (w', None) \<Rightarrow> w'
      | (w', Some cfg) \<Rightarrow> publish_config cfg w')"

text \<open>The loop of \<^verbatim>\<open>Run\<close> over the events of its \<^verbatim>\<open>select\<close>.\<close>

datatype watch_event = ContextEnds | Hangup file_view | Tick file_view

fun watcher_run :: "compiler \<Rightarrow> unmarshaler \<Rightarrow> watch_event list \<Rightarrow> watcher \<Rightarrow> watcher" where
  "watcher_run rc unmarshal [] w = w"
| "watcher_run rc unmarshal (e # es) w =
     (case e of
        ContextEnds \<Rightarrow> w
      | Hangup v \<Rightarrow> watcher_run rc unmarshal es (reload rc unmarshal True v w)
      | Tick v \<Rightarrow> watcher_run rc unmarshal es (reload rc unmarshal False v w))"

section \<open>Reloading\<close>

lemma publish_channel_newest: "publish_channel cfg ch = Some cfg"
  using chan.replace_newest [of cfg ch]
  by (cases "publish_channel cfg ch") (auto simp: publish_channel_def chan_items_def)

lemma publish_config_subs: "wt_subs (publish_config cfg w) = map (\<lambda>_. Some cfg) (wt_subs w)"
  by (simp add: publish_config_def publish_channel_newest)

lemma reload_file_cases:
  assumes "reload_file rc unmarshal force v w = (w', po)"
  obtains (untouched) "w' = w" "po = None"
  | (equal) ms where "w' = w\<lparr>wt_mtime := fst ms, wt_size := snd ms\<rparr>" "po = None" "fv_stat v = Some ms"
      "load rc (fv_paths v) unmarshal (wt_path w) (fv_data v) = Inr (wt_cur w)"
  | (accepted) ms cfg where "w' = w\<lparr>wt_mtime := fst ms, wt_size := snd ms, wt_cur := cfg\<rparr>" "po = Some cfg"
      "fv_stat v = Some ms" "load rc (fv_paths v) unmarshal (wt_path w) (fv_data v) = Inr cfg" "cfg \<noteq> wt_cur w"
  using assms unfolding reload_file_def Let_def config_equal_def
  by (auto split: if_split_asm option.split_asm prod.split_asm sum.split_asm)

lemma reload_file_subs: "reload_file rc unmarshal force v w = (w', po) \<Longrightarrow> wt_subs w' = wt_subs w"
  by (erule reload_file_cases) simp_all

lemma reload_file_cur:
  "reload_file rc unmarshal force v w = (w', po) \<Longrightarrow>
    wt_cur w' = (case po of None \<Rightarrow> wt_cur w | Some cfg \<Rightarrow> cfg)"
  by (erule reload_file_cases) simp_all

lemma reload_file_sound:
  "reload_file rc unmarshal force v w = (w', po) \<Longrightarrow> sound_config rc (wt_cur w) \<Longrightarrow> sound_config rc (wt_cur w')"
  by (erule reload_file_cases) (simp_all add: load_sound)

text \<open>
  C11. A bad edit cannot break a running exporter, and a good one takes effect: a reload whose load
  fails changes nothing at all; one whose file decodes to the configuration in force delivers
  nothing; one that yields a new configuration puts it in force and leaves exactly it in the channel
  of every subscriber; and without force a file with unchanged time and size is not even read.
\<close>

theorem reload_outcomes:
  assumes "wt_path w \<noteq> []" and "fv_stat v = Some (mtime, sz)"
    and "l = load rc (fv_paths v) unmarshal (wt_path w) (fv_data v)"
    and "w' = reload rc unmarshal force v w"
  shows "if mtime = wt_mtime w \<and> sz = wt_size w \<and> \<not> force then w' = w
    else case l of
        Inl e \<Rightarrow> w' = w
      | Inr cfg \<Rightarrow> wt_mtime w' = mtime \<and> wt_size w' = sz \<and> current w' = cfg \<and> wt_path w' = wt_path w
          \<and> wt_subs w' = (if cfg = current w then wt_subs w else map (\<lambda>_. Some cfg) (wt_subs w))"
  using assms(1,2)
  by (simp add: assms(3,4) reload_def reload_file_def Let_def config_equal_def current_def
      publish_config_def publish_channel_newest split: sum.split)

end
