(* ===== verification/WatcherSteps.thy ===== *)
theory WatcherSteps
  imports Watcher "HOL-Library.Sublist"
begin

text \<open>
  The delivery of configurations as a state machine. Between any two channel operations of the
  publisher a subscriber may take the value that is there. Two things are recorded beside the state
  of the program: what each subscriber has received, and which configurations were published while
  it was subscribed.
\<close>

section \<open>The machine\<close>

text \<open>
  Where the goroutine of \<^verbatim>\<open>Run\<close> is: waiting; in \<^verbatim>\<open>reload\<close> before it takes the lock of the
  subscribers; at one of the three channel operations for a subscriber.
\<close>

datatype phase = Idle | Locking config | Sending config nat | Draining config nat | Resending config nat

record delivery =
  dl_watcher :: watcher
  dl_phase :: phase
  dl_logs :: "config list list"
  dl_offers :: "config list list"

definition set_chan :: "nat \<Rightarrow> config chan \<Rightarrow> watcher \<Rightarrow> watcher" where
  "set_chan i ch w = w\<lparr>wt_subs := (wt_subs w)[i := ch]\<rparr>"

inductive watcher_step :: "compiler \<Rightarrow> unmarshaler \<Rightarrow> delivery \<Rightarrow> delivery \<Rightarrow> bool"
  for rc :: compiler and um :: unmarshaler where
  reloading: "dl_phase s = Idle \<Longrightarrow> reload_file rc um force v (dl_watcher s) = (w', po) \<Longrightarrow>
    watcher_step rc um s (s\<lparr>dl_watcher := w', dl_phase := (case po of None \<Rightarrow> Idle | Some cfg \<Rightarrow> Locking cfg)\<rparr>)"
| locking: "dl_phase s = Locking cfg \<Longrightarrow>
    watcher_step rc um s (s\<lparr>dl_phase := Sending cfg 0, dl_offers := map (\<lambda>os. os @ [cfg]) (dl_offers s)\<rparr>)"
| sending: "dl_phase s = Sending cfg i \<Longrightarrow> i < length (wt_subs (dl_watcher s)) \<Longrightarrow>
    try_send cfg (wt_subs (dl_watcher s) ! i) = (ch, sent) \<Longrightarrow>
    watcher_step rc um s (s\<lparr>dl_watcher := set_chan i ch (dl_watcher s),
      dl_phase := (if sent then Sending cfg (i + 1) else Draining cfg i)\<rparr>)"
| draining: "dl_phase s = Draining cfg i \<Longrightarrow> try_recv (wt_subs (dl_watcher s) ! i) = (ch, x) \<Longrightarrow>
    watcher_step rc um s (s\<lparr>dl_watcher := set_chan i ch (dl_watcher s), dl_phase := Resending cfg i\<rparr>)"
| resending: "dl_phase s = Resending cfg i \<Longrightarrow> try_send cfg (wt_subs (dl_watcher s) ! i) = (ch, sent) \<Longrightarrow>
    watcher_step rc um s (s\<lparr>dl_watcher := set_chan i ch (dl_watcher s), dl_phase := Sending cfg (i + 1)\<rparr>)"
| finishing: "dl_phase s = Sending cfg i \<Longrightarrow> length (wt_subs (dl_watcher s)) \<le> i \<Longrightarrow>
    watcher_step rc um s (s\<lparr>dl_phase := Idle\<rparr>)"
| receiving: "i < length (wt_subs (dl_watcher s)) \<Longrightarrow> try_recv (wt_subs (dl_watcher s) ! i) = (ch, Some cfg) \<Longrightarrow>
    watcher_step rc um s (s\<lparr>dl_watcher := set_chan i ch (dl_watcher s),
      dl_logs := (dl_logs s)[i := dl_logs s ! i @ [cfg]]\<rparr>)"
| subscribing: "dl_phase s = Idle \<or> dl_phase s = Locking cfg \<Longrightarrow>
    watcher_step rc um s (s\<lparr>dl_watcher := subscribe (dl_watcher s), dl_logs := dl_logs s @ [[]],
      dl_offers := dl_offers s @ [[]]\<rparr>)"

inductive_cases watcher_stepE: "watcher_step rc um s s'"

definition start_delivery :: "watcher \<Rightarrow> delivery" where
  "start_delivery w = \<lparr>dl_watcher = w, dl_phase = Idle, dl_logs = [], dl_offers = []\<rparr>"

section \<open>The invariant\<close>

text \<open>
  Of one subscriber: \<open>seen\<close> is what it has received followed by what waits in its channel. It is up
  to date when it has the last of the configurations it was offered, and never one out of order.
\<close>

definition seen :: "config list \<Rightarrow> config chan \<Rightarrow> config list" where
  "seen received ch = received @ chan_items ch"

definition up_to_date :: "config list \<Rightarrow> config list \<Rightarrow> bool" where
  "up_to_date sn offered \<longleftrightarrow> subseq sn offered \<and> (offered \<noteq> [] \<longrightarrow> sn \<noteq> [] \<and> last sn = last offered)"

definition one_behind :: "config \<Rightarrow> config list \<Rightarrow> config list \<Rightarrow> bool" where
  "one_behind cfg sn offered \<longleftrightarrow> (\<exists>os. offered = os @ [cfg] \<and> up_to_date sn os)"

definition drained :: "config \<Rightarrow> config list \<Rightarrow> config list \<Rightarrow> bool" where
  "drained cfg sn offered \<longleftrightarrow> (\<exists>os. offered = os @ [cfg] \<and> subseq sn os)"

definition chan_ok :: "phase \<Rightarrow> nat \<Rightarrow> config list \<Rightarrow> config chan \<Rightarrow> config list \<Rightarrow> bool" where
  "chan_ok ph i received ch offered =
     (case ph of
        Idle \<Rightarrow> up_to_date (seen received ch) offered
      | Locking _ \<Rightarrow> up_to_date (seen received ch) offered
      | Sending cfg j \<Rightarrow> if i < j then up_to_date (seen received ch) offered
          else one_behind cfg (seen received ch) offered
      | Draining cfg j \<Rightarrow> if i < j then up_to_date (seen received ch) offered
          else one_behind cfg (seen received ch) offered
      | Resending cfg j \<Rightarrow> if i < j then up_to_date (seen received ch) offered
          else if i = j then ch = None \<and> drained cfg (seen received ch) offered
          else one_behind cfg (seen received ch) offered)"

definition phase_ok :: "phase \<Rightarrow> config \<Rightarrow> nat \<Rightarrow> config list list \<Rightarrow> bool" where
  "phase_ok ph cur n offers =
     (case ph of
        Idle \<Rightarrow> \<forall>os \<in> set offers. os \<noteq> [] \<longrightarrow> last os = cur
      | Locking cfg \<Rightarrow> cfg = cur
      | Sending cfg j \<Rightarrow> cfg = cur \<and> (\<forall>os \<in> set offers. os \<noteq> [] \<longrightarrow> last os = cur)
      | Draining cfg j \<Rightarrow> j < n \<and> cfg = cur \<and> (\<forall>os \<in> set offers. os \<noteq> [] \<longrightarrow> last os = cur)
      | Resending cfg j \<Rightarrow> j < n \<and> cfg = cur \<and> (\<forall>os \<in> set offers. os \<noteq> [] \<longrightarrow> last os = cur))"

definition delivery_inv :: "compiler \<Rightarrow> delivery \<Rightarrow> bool" where
  "delivery_inv rc s \<longleftrightarrow>
     (let w = dl_watcher s; n = length (wt_subs w)
      in length (dl_logs s) = n \<and> length (dl_offers s) = n
         \<and> sound_config rc (wt_cur w) \<and> (\<forall>os \<in> set (dl_offers s). \<forall>c \<in> set os. sound_config rc c)
         \<and> phase_ok (dl_phase s) (wt_cur w) n (dl_offers s)
         \<and> (\<forall>i < n. chan_ok (dl_phase s) i (dl_logs s ! i) (wt_subs w ! i) (dl_offers s ! i)))"

lemma seen_simps [simp]: "seen received None = received" "seen received (Some c) = received @ [c]"
  by (simp_all add: seen_def chan_items_def)

lemma subseq_subset: "subseq xs ys \<Longrightarrow> x \<in> set xs \<Longrightarrow> x \<in> set ys"
  by (auto dest: list_emb_set)

lemma drained_sent: "drained cfg sn offered \<Longrightarrow> up_to_date (sn @ [cfg]) offered"
  by (auto simp: drained_def up_to_date_def)

lemma one_behind_drained: "one_behind cfg (received @ xs) offered \<Longrightarrow> drained cfg received offered"
proof -
  have "subseq received os" if "subseq (received @ xs) os" for os
    using that by (rule subseq_order.order_trans [rotated]) (simp add: prefix_imp_subseq)
  then show "one_behind cfg (received @ xs) offered \<Longrightarrow> drained cfg received offered"
    by (auto simp: one_behind_def drained_def up_to_date_def)
qed

lemma one_behind_sent: "one_behind cfg sn offered \<Longrightarrow> up_to_date (sn @ [cfg]) offered"
  using one_behind_drained [of cfg sn "[]"] drained_sent by simp

lemma one_behind_offered: "up_to_date sn os \<Longrightarrow> one_behind cfg sn (os @ [cfg])"
  by (auto simp: one_behind_def)

lemma seen_received: "seen (received @ [c]) None = seen received (Some c)"
  by simp

lemma start_delivery_inv:
  "sound_config rc (wt_cur w) \<Longrightarrow> wt_subs w = [] \<Longrightarrow> delivery_inv rc (start_delivery w)"
  by (simp add: delivery_inv_def start_delivery_def phase_ok_def)

text \<open>The parts of the invariant, for a state given by its parts.\<close>

lemma delivery_invI:
  assumes "length (dl_logs s) = length (wt_subs (dl_watcher s))"
    and "length (dl_offers s) = length (wt_subs (dl_watcher s))"
    and "sound_config rc (wt_cur (dl_watcher s))" and "\<forall>os \<in> set (dl_offers s). \<forall>c \<in> set os. sound_config rc c"
    and "phase_ok (dl_phase s) (wt_cur (dl_watcher s)) (length (wt_subs (dl_watcher s))) (dl_offers s)"
    and "\<And>i. i < length (wt_subs (dl_watcher s)) \<Longrightarrow>
      chan_ok (dl_phase s) i (dl_logs s ! i) (wt_subs (dl_watcher s) ! i) (dl_offers s ! i)"
  shows "delivery_inv rc s"
  using assms by (simp add: delivery_inv_def)

lemma delivery_invD:
  assumes "delivery_inv rc s"
  shows "length (dl_logs s) = length (wt_subs (dl_watcher s))"
    and "length (dl_offers s) = length (wt_subs (dl_watcher s))"
    and "sound_config rc (wt_cur (dl_watcher s))" and "\<forall>os \<in> set (dl_offers s). \<forall>c \<in> set os. sound_config rc c"
    and "phase_ok (dl_phase s) (wt_cur (dl_watcher s)) (length (wt_subs (dl_watcher s))) (dl_offers s)"
    and "i < length (wt_subs (dl_watcher s)) \<Longrightarrow>
      chan_ok (dl_phase s) i (dl_logs s ! i) (wt_subs (dl_watcher s) ! i) (dl_offers s ! i)"
  using assms by (simp_all add: delivery_inv_def Let_def)

lemma set_chan_simps [simp]:
  "wt_cur (set_chan i ch w) = wt_cur w" "wt_subs (set_chan i ch w) = (wt_subs w)[i := ch]"
  "wt_path (set_chan i ch w) = wt_path w"
  by (simp_all add: set_chan_def)

lemmas chan_op_simps = try_send_def try_recv_def nth_list_update chan_ok_def phase_ok_def

lemma chan_ok_receive:
  "chan_ok ph i received (Some c) offered \<Longrightarrow> chan_ok ph i (received @ [c]) None offered"
  by (simp add: chan_ok_def split: phase.splits if_splits)

lemma delivery_inv_step: "watcher_step rc um s s' \<Longrightarrow> delivery_inv rc s \<Longrightarrow> delivery_inv rc s'"
proof (induction rule: watcher_step.induct)
  case (reloading s force v w' po)
  note d = delivery_invD [OF reloading.prems]
  note w = reload_file_subs [OF reloading(2)] reload_file_cur [OF reloading(2)] reload_file_sound [OF reloading(2)]
  show ?case
    by (rule delivery_invI) (use d w reloading(1) in \<open>auto simp: chan_ok_def phase_ok_def split: option.split\<close>)
next
  case (locking s cfg)
  note d = delivery_invD [OF locking.prems]
  show ?case
    by (rule delivery_invI) (use d locking(1) in \<open>auto simp: chan_ok_def phase_ok_def one_behind_offered\<close>)
next
  case (sending s cfg i ch sent)
  note d = delivery_invD [OF sending.prems]
  have b: "one_behind cfg (seen (dl_logs s ! i) (wt_subs (dl_watcher s) ! i)) (dl_offers s ! i)"
    using d(6) [OF sending(2)] sending(1) by (simp add: chan_ok_def)
  show ?case
    by (rule delivery_invI)
       (use d sending b one_behind_sent [OF b] in \<open>auto simp: chan_op_simps less_Suc_eq split: option.split_asm if_split_asm\<close>)
next
  case (draining s cfg i ch x)
  note d = delivery_invD [OF draining.prems]
  have i: "i < length (wt_subs (dl_watcher s))" using d(5) draining(1) by (simp add: phase_ok_def)
  have b: "one_behind cfg (seen (dl_logs s ! i) (wt_subs (dl_watcher s) ! i)) (dl_offers s ! i)"
    using d(6) [OF i] draining(1) by (simp add: chan_ok_def)
  show ?case
    by (rule delivery_invI)
       (use d i draining one_behind_drained [OF b [unfolded seen_def]] in
         \<open>auto simp: chan_op_simps split: if_split_asm\<close>)
next
  case (resending s cfg i ch sent)
  note d = delivery_invD [OF resending.prems]
  have i: "i < length (wt_subs (dl_watcher s))" using d(5) resending(1) by (simp add: phase_ok_def)
  have b: "wt_subs (dl_watcher s) ! i = None" "drained cfg (dl_logs s ! i) (dl_offers s ! i)"
    using d(6) [OF i] resending(1) by (auto simp: chan_ok_def)
  show ?case
    by (rule delivery_invI)
       (use d i b(1) resending drained_sent [OF b(2)] in
         \<open>auto simp: chan_op_simps less_Suc_eq split: if_split_asm\<close>)
next
  case (finishing s cfg i)
  note d = delivery_invD [OF finishing.prems]
  show ?case
    by (rule delivery_invI) (use d finishing in \<open>auto simp: chan_ok_def phase_ok_def\<close>)
next
  case (receiving i s ch cfg)
  note d = delivery_invD [OF receiving.prems]
  show ?case
    by (rule delivery_invI)
       (use d receiving chan_ok_receive d(6) [OF receiving(1)] in \<open>auto simp: try_recv_def nth_list_update\<close>)
next
  case (subscribing s cfg)
  note d = delivery_invD [OF subscribing.prems]
  show ?case
    by (rule delivery_invI)
       (use d subscribing in \<open>auto simp: subscribe_def chan_ok_def phase_ok_def nth_append up_to_date_def split: if_split_asm\<close>)
qed

lemma offered_subset:
  "up_to_date sn offered \<Longrightarrow> set sn \<subseteq> set offered" "one_behind cfg sn offered \<Longrightarrow> set sn \<subseteq> set offered"
  "drained cfg sn offered \<Longrightarrow> set sn \<subseteq> set offered"
  unfolding up_to_date_def one_behind_def drained_def by (auto dest: subseq_subset)

lemma chan_ok_subset: "chan_ok ph i received ch offered \<Longrightarrow> set (seen received ch) \<subseteq> set offered"
  unfolding chan_ok_def
  by (cases ph) (simp_all add: offered_subset split: if_split_asm, metis offered_subset(3) seen_simps(1))

lemma delivery_inv_reachable:
  assumes "(watcher_step rc um)\<^sup>*\<^sup>* (start_delivery w) s" and "sound_config rc (wt_cur w)" and "wt_subs w = []"
  shows "delivery_inv rc s"
  using assms(1) by (induction rule: rtranclp_induct) (auto simp: start_delivery_inv assms delivery_inv_step)

text \<open>
  C9. Only usable configurations are ever in force: whatever edits are made to the file, whenever it is
  reloaded and however deliveries and receptions interleave, the configuration in force and every one
  that reaches a subscriber passed validation, is in normal form, and compiles to a filter and a namer.
\<close>

theorem configs_in_force_are_usable:
  assumes "(watcher_step rc um)\<^sup>*\<^sup>* (start_delivery w) s" and "sound_config rc (wt_cur w)" and "wt_subs w = []"
    and "cfg = wt_cur (dl_watcher s) \<or> (\<exists>i < length (dl_logs s). cfg \<in> set (seen (dl_logs s ! i) (wt_subs (dl_watcher s) ! i)))"
  shows "sound_config rc cfg \<and> (\<exists>f n. filter_new rc (c_filter cfg) = Inr f \<and> namer_new rc (c_naming cfg) = Inr n)"
proof -
  note inv = delivery_inv_reachable [OF assms(1-3)]
  note d = delivery_invD [OF inv]
  have "sound_config rc c" if i: "i < length (dl_logs s)" and c: "c \<in> set (seen (dl_logs s ! i) (wt_subs (dl_watcher s) ! i))" for i c
  proof -
    have "chan_ok (dl_phase s) i (dl_logs s ! i) (wt_subs (dl_watcher s) ! i) (dl_offers s ! i)"
      using d(1,6) i by simp
    then have "c \<in> set (dl_offers s ! i)"
      using chan_ok_subset c by blast
    then show ?thesis using d(1,2,4) i by (metis nth_mem)
  qed
  then have "sound_config rc cfg" using assms(4) d(3) by blast
  then show ?thesis using validated_constructs by (auto simp: sound_config_def)
qed

text \<open>
  C10. The newest configuration is never lost: in every state in which no reload is under way, what a
  subscriber has received together with what waits in its channel is, in order and without
  repetition, a part of what was published since it subscribed, and when anything was, its last
  element is the configuration in force. A slow subscriber may miss intermediate values, never the last.
\<close>

theorem newest_config_delivered:
  assumes "(watcher_step rc um)\<^sup>*\<^sup>* (start_delivery w) s" and "sound_config rc (wt_cur w)" and "wt_subs w = []"
    and "dl_phase s = Idle" and "i < length (wt_subs (dl_watcher s))"
    and "sn = dl_logs s ! i @ chan_items (wt_subs (dl_watcher s) ! i)"
  shows "subseq sn (dl_offers s ! i)
    \<and> (dl_offers s ! i \<noteq> [] \<longrightarrow> sn \<noteq> [] \<and> last sn = current (dl_watcher s))"
proof -
  note d = delivery_invD [OF delivery_inv_reachable [OF assms(1-3)]]
  have "up_to_date sn (dl_offers s ! i)"
    using d(6) [OF assms(5)] assms(4) by (simp add: chan_ok_def seen_def assms(6))
  moreover have "last (dl_offers s ! i) = wt_cur (dl_watcher s)" if "dl_offers s ! i \<noteq> []"
    using d(2,5) assms(4,5) that by (simp add: phase_ok_def)
  ultimately show ?thesis by (simp add: up_to_date_def current_def)
qed

section \<open>The publisher alone\<close>

text \<open>
  Without receptions the machine does what the sequential \<^const>\<open>publish_config\<close> says. \<open>published i\<close> is
  the watcher after the first \<open>i\<close> subscribers were served.
\<close>

definition published :: "config \<Rightarrow> nat \<Rightarrow> watcher \<Rightarrow> watcher" where
  "published cfg i w = w\<lparr>wt_subs := map (publish_channel cfg) (take i (wt_subs w)) @ drop i (wt_subs w)\<rparr>"

lemma published_0: "published cfg 0 w = w"
  by (cases w) (simp add: published_def)

lemma set_chan_published:
  assumes "i < length (wt_subs w)"
  shows "set_chan i (publish_channel cfg (wt_subs w ! i)) (published cfg i w) = published cfg (i + 1) w"
  using assms by (simp add: set_chan_def published_def take_Suc_conv_app_nth Cons_nth_drop_Suc [symmetric] list_update_append)

lemma serve_one:
  assumes "dl_phase s = Sending cfg i" and "dl_watcher s = published cfg i w" and "i < length (wt_subs w)"
  shows "(watcher_step rc um)\<^sup>*\<^sup>* s (s\<lparr>dl_watcher := published cfg (i + 1) w, dl_phase := Sending cfg (i + 1)\<rparr>)"
proof -
  have nth: "wt_subs (dl_watcher s) ! i = wt_subs w ! i" "i < length (wt_subs (dl_watcher s))"
    using assms(2,3) by (simp_all add: published_def nth_append)
  show ?thesis
  proof (cases "wt_subs w ! i")
    case None
    have "watcher_step rc um s (s\<lparr>dl_watcher := set_chan i (Some cfg) (dl_watcher s), dl_phase := Sending cfg (i + 1)\<rparr>)"
      using watcher_step.sending [OF assms(1) nth(2), of "Some cfg" True] nth(1) None by (simp add: try_send_def)
    then show ?thesis
      using set_chan_published [OF assms(3), of cfg] assms(2) by (auto simp: None publish_channel_newest)
  next
    case (Some old)
    let ?s1 = "s\<lparr>dl_watcher := set_chan i (Some old) (dl_watcher s), dl_phase := Draining cfg i\<rparr>"
    let ?s2 = "?s1\<lparr>dl_watcher := set_chan i None (dl_watcher ?s1), dl_phase := Resending cfg i\<rparr>"
    let ?s3 = "?s2\<lparr>dl_watcher := set_chan i (Some cfg) (dl_watcher ?s2), dl_phase := Sending cfg (i + 1)\<rparr>"
    have 1: "watcher_step rc um s ?s1"
      using watcher_step.sending [OF assms(1) nth(2), of "Some old" False] nth(1) Some by (simp add: try_send_def)
    have 2: "watcher_step rc um ?s1 ?s2"
      by (rule watcher_step.draining) (simp_all add: try_recv_def)
    have 3: "watcher_step rc um ?s2 ?s3"
      by (rule watcher_step.resending) (use nth(2) in \<open>simp_all add: try_send_def\<close>)
    have "set_chan i (Some cfg) (dl_watcher ?s2) = set_chan i (Some cfg) (published cfg i w)"
      by (simp add: set_chan_def assms(2))
    then have "?s3 = s\<lparr>dl_watcher := published cfg (i + 1) w, dl_phase := Sending cfg (i + 1)\<rparr>"
      using set_chan_published [OF assms(3), of cfg] by (simp add: publish_channel_newest)
    with converse_rtranclp_into_rtranclp [OF 1 converse_rtranclp_into_rtranclp [OF 2 r_into_rtranclp [of "watcher_step rc um", OF 3]]]
    show ?thesis by simp
  qed
qed

lemma serve_all:
  "dl_phase s = Sending cfg i \<Longrightarrow> dl_watcher s = published cfg i w \<Longrightarrow> i \<le> length (wt_subs w) \<Longrightarrow>
    (watcher_step rc um)\<^sup>*\<^sup>* s (s\<lparr>dl_watcher := publish_config cfg w, dl_phase := Idle\<rparr>)"
proof (induction "length (wt_subs w) - i" arbitrary: i s)
  case 0
  then have "dl_watcher s = publish_config cfg w" "length (wt_subs (dl_watcher s)) \<le> i"
    by (simp_all add: published_def publish_config_def)
  then have "s\<lparr>dl_watcher := publish_config cfg w, dl_phase := Idle\<rparr> = s\<lparr>dl_phase := Idle\<rparr>"
    "watcher_step rc um s (s\<lparr>dl_phase := Idle\<rparr>)"
    using watcher_step.finishing [OF "0.prems"(1)] by (cases s, simp)+
  then show ?case by simp
next
  case (Suc n)
  then have i: "i < length (wt_subs w)" by simp
  let ?s = "s\<lparr>dl_watcher := published cfg (i + 1) w, dl_phase := Sending cfg (i + 1)\<rparr>"
  have "(watcher_step rc um)\<^sup>*\<^sup>* ?s (?s\<lparr>dl_watcher := publish_config cfg w, dl_phase := Idle\<rparr>)"
    using Suc.hyps(2) i by (intro Suc.hyps(1) [of "i + 1"]) simp_all
  from rtranclp_trans [OF serve_one [OF Suc.prems(1,2) i] this] show ?case by simp
qed

lemma reload_runs:
  assumes "dl_phase s = Idle" and "w' = reload rc um force v (dl_watcher s)"
  shows "\<exists>offers. (watcher_step rc um)\<^sup>*\<^sup>* s (s\<lparr>dl_watcher := w', dl_offers := offers\<rparr>)
    \<and> (offers = dl_offers s \<or> offers = map (\<lambda>os. os @ [current w']) (dl_offers s))"
proof -
  obtain w1 po where r: "reload_file rc um force v (dl_watcher s) = (w1, po)"
    by (cases "reload_file rc um force v (dl_watcher s)")
  note step = watcher_step.reloading [OF assms(1) r]
  show ?thesis
  proof (cases po)
    case None
    have "w' = w1" by (simp add: assms(2) reload_def r None)
    moreover have "s\<lparr>dl_watcher := w1, dl_phase := Idle\<rparr> = s\<lparr>dl_watcher := w1\<rparr>"
      using assms(1) by (cases s) simp
    ultimately have "watcher_step rc um s (s\<lparr>dl_watcher := w'\<rparr>)"
      using step None by simp
    then show ?thesis by (intro exI [where x = "dl_offers s"]) auto
  next
    case (Some cfg)
    let ?s1 = "s\<lparr>dl_watcher := w1, dl_phase := Locking cfg\<rparr>"
    let ?s2 = "?s1\<lparr>dl_phase := Sending cfg 0, dl_offers := map (\<lambda>os. os @ [cfg]) (dl_offers ?s1)\<rparr>"
    have w': "w' = publish_config cfg w1" using assms(2) Some by (simp add: reload_def r)
    have cur: "current w' = cfg"
      using reload_file_cur [OF r] Some by (simp add: w' current_def publish_config_def)
    have "watcher_step rc um s ?s1" using step Some by simp
    moreover have "watcher_step rc um ?s1 ?s2" by (rule watcher_step.locking) simp
    moreover have "(watcher_step rc um)\<^sup>*\<^sup>* ?s2 (?s2\<lparr>dl_watcher := publish_config cfg w1, dl_phase := Idle\<rparr>)"
      by (rule serve_all [where i = 0]) (simp_all add: published_0)
    ultimately have "(watcher_step rc um)\<^sup>*\<^sup>* s (?s2\<lparr>dl_watcher := publish_config cfg w1, dl_phase := Idle\<rparr>)"
      by (meson converse_rtranclp_into_rtranclp)
    moreover have "?s2\<lparr>dl_watcher := publish_config cfg w1, dl_phase := Idle\<rparr>
        = s\<lparr>dl_watcher := w', dl_offers := map (\<lambda>os. os @ [cfg]) (dl_offers s)\<rparr>"
      using assms(1) by (cases s) (simp add: w')
    ultimately show ?thesis using cur by auto
  qed
qed


section \<open>Termination of a publication\<close>

text \<open>
  What is left to do while a publication holds the lock of the subscribers: at most three operations
  for each channel not yet served, and the receptions of what waits in the channels.
\<close>

definition lock_held :: "delivery \<Rightarrow> bool" where
  "lock_held s =
     (case dl_phase s of
        Idle \<Rightarrow> False | Locking _ \<Rightarrow> False | Sending _ _ \<Rightarrow> True
      | Draining _ i \<Rightarrow> i < length (wt_subs (dl_watcher s))
      | Resending _ i \<Rightarrow> i < length (wt_subs (dl_watcher s)))"

definition operations_left :: "phase \<Rightarrow> nat \<Rightarrow> nat" where
  "operations_left ph n =
     (case ph of
        Idle \<Rightarrow> 0 | Locking _ \<Rightarrow> 0 | Sending _ i \<Rightarrow> 3 * (n - i) + 1
      | Draining _ i \<Rightarrow> 3 * (n - i) | Resending _ i \<Rightarrow> 3 * (n - i) - 1)"

definition waiting :: "config chan list \<Rightarrow> nat" where
  "waiting chs = sum_list (map (length \<circ> chan_items) chs)"

definition work_left :: "delivery \<Rightarrow> nat" where
  "work_left s =
     (let chs = wt_subs (dl_watcher s) in 2 * operations_left (dl_phase s) (length chs) + waiting chs)"

lemma waiting_update:
  "i < length chs \<Longrightarrow> waiting (chs[i := ch]) + length (chan_items (chs ! i)) = waiting chs + length (chan_items ch)"
  by (induction chs arbitrary: i) (auto simp: waiting_def nth_Cons split: nat.split)

lemma chan_items_le: "length (chan_items ch) \<le> 1"
  by (simp add: chan_items_def split: option.split)

lemma waiting_le: "waiting chs \<le> length chs"
  by (induction chs) (auto simp: waiting_def intro: add_mono [OF chan_items_le, simplified])

lemma publication_keeps_current:
  "watcher_step rc um s s' \<Longrightarrow> dl_phase s \<noteq> Idle \<Longrightarrow> current (dl_watcher s') = current (dl_watcher s)"
  by (elim watcher_stepE) (auto simp: subscribe_def current_def)

lemma publisher_not_stuck: "dl_phase s \<noteq> Idle \<Longrightarrow> \<exists>s'. watcher_step rc um s s'"
proof (cases "dl_phase s")
  case (Sending cfg i)
  then show ?thesis
    by (cases "i < length (wt_subs (dl_watcher s))"; cases "try_send cfg (wt_subs (dl_watcher s) ! i)")
       (meson watcher_step.sending watcher_step.finishing not_less)+
next
  case (Draining cfg i)
  then show ?thesis
    by (cases "try_recv (wt_subs (dl_watcher s) ! i)") (meson watcher_step.draining)
next
  case (Resending cfg i)
  then show ?thesis
    by (cases "try_send cfg (wt_subs (dl_watcher s) ! i)") (meson watcher_step.resending)
qed (auto dest: watcher_step.locking)

lemma lock_not_idle: "lock_held s \<Longrightarrow> dl_phase s \<noteq> Idle"
  by (auto simp: lock_held_def)

lemma work_positive: "lock_held s \<Longrightarrow> 0 < work_left s"
  by (auto simp: lock_held_def work_left_def operations_left_def Let_def split: phase.splits)

lemma work_step:
  assumes "watcher_step rc um s s'" and "lock_held s"
  shows "length (wt_subs (dl_watcher s')) = length (wt_subs (dl_watcher s))
    \<and> (dl_phase s' = Idle \<or> lock_held s') \<and> work_left s' < work_left s"
proof -
  note simps = lock_held_def work_left_def operations_left_def Let_def
  from assms show ?thesis
  proof (induction rule: watcher_step.induct)
    case (sending s cfg i ch sent)
    then show ?case
      using waiting_update [OF sending(2), of ch] chan_items_le [of ch]
      by (cases "wt_subs (dl_watcher s) ! i") (auto simp: simps try_send_def chan_items_def)
  next
    case (draining s cfg i ch x)
    then have "i < length (wt_subs (dl_watcher s))" by (simp add: lock_held_def)
    then show ?case using draining waiting_update [of i "wt_subs (dl_watcher s)" ch] by (auto simp: simps try_recv_def chan_items_def)
  next
    case (resending s cfg i ch sent)
    then have "i < length (wt_subs (dl_watcher s))" by (simp add: lock_held_def)
    then show ?case
      using resending waiting_update [of i "wt_subs (dl_watcher s)" ch] chan_items_le [of ch] by (auto simp: simps)
  next
    case (receiving i s ch cfg)
    then show ?case
      using waiting_update [of i "wt_subs (dl_watcher s)" ch]
      by (auto simp: simps try_recv_def chan_items_def split: phase.splits)
  qed (auto simp: simps split: phase.splits)
qed

text \<open>
  C37. A publication ends: once it holds the lock of the subscribers, it is over after at most
  \<open>7 * n + 2\<close> steps of anyone, for \<open>n\<close> subscribers that may receive at any time, and it leaves the
  configuration in force as it was. It is never stuck on the way, whatever the channels hold.
\<close>

theorem publication_terminates:
  assumes "\<And>i. watcher_step rc um (f i) (f (Suc i))" and "dl_phase (f 0) = Sending cfg 0"
  shows "(\<exists>k \<le> 7 * length (wt_subs (dl_watcher (f 0))) + 2.
      dl_phase (f k) = Idle \<and> current (dl_watcher (f k)) = current (dl_watcher (f 0)))
    \<and> (\<forall>s. dl_phase s \<noteq> Idle \<longrightarrow> (\<exists>s'. watcher_step rc um s s'))"
proof -
  let ?B = "7 * length (wt_subs (dl_watcher (f 0))) + 2"
  have start: "lock_held (f 0)" "work_left (f 0) \<le> ?B"
    using assms(2) waiting_le [of "wt_subs (dl_watcher (f 0))"]
    by (simp_all add: lock_held_def work_left_def operations_left_def Let_def)
  define ended where "ended k \<longleftrightarrow>
    (\<exists>j \<le> k. dl_phase (f j) = Idle \<and> current (dl_watcher (f j)) = current (dl_watcher (f 0)))" for k
  have run: "ended k \<or> lock_held (f k) \<and> work_left (f k) + k \<le> ?B
      \<and> current (dl_watcher (f k)) = current (dl_watcher (f 0))" for k
  proof (induction k)
    case (Suc k)
    show ?case
    proof (cases "ended k")
      case False
      then have k: "lock_held (f k)" "work_left (f k) + k \<le> ?B"
          "current (dl_watcher (f k)) = current (dl_watcher (f 0))"
        using Suc by simp_all
      have cur: "current (dl_watcher (f (Suc k))) = current (dl_watcher (f 0))"
        using publication_keeps_current [OF assms(1) lock_not_idle [OF k(1)]] k(3) by simp
      show ?thesis
      proof (cases "dl_phase (f (Suc k)) = Idle")
        case True
        then show ?thesis using cur unfolding ended_def by blast
      next
        case False
        then show ?thesis using work_step [OF assms(1) k(1)] k(2) cur by simp
      qed
    qed (auto simp: ended_def le_Suc_eq)
  qed (use start in simp)
  have "ended ?B" using run [of ?B] work_positive [of "f ?B"] by auto
  then show ?thesis using publisher_not_stuck unfolding ended_def by blast
qed

end
