(* ===== verification/DurationText.thy ===== *)
theory DurationText
  imports Config GoTime
begin

text \<open>
  The text form of a duration: \<^verbatim>\<open>time.ParseDuration\<close>, the decoders and encoders of
  \<^verbatim>\<open>internal/config/config.go\<close>, and the proof that they read back what \<^const>\<open>duration_string\<close> writes.
\<close>

section \<open>ParseDuration\<close>

definition is_digit :: "char \<Rightarrow> bool" where
  "is_digit c \<longleftrightarrow> digit_val c \<noteq> None"

text \<open>\<^verbatim>\<open>leadingInt\<close>, \<^const>\<open>None\<close> on overflow.\<close>

fun leading_int :: "nat \<Rightarrow> string \<Rightarrow> (nat \<times> string) option" where
  "leading_int x [] = Some (x, [])"
| "leading_int x (c # s) =
     (case digit_val c of
        None \<Rightarrow> Some (x, c # s)
      | Some d \<Rightarrow>
          if x > 2 ^ 63 div 10 then None
          else if x * 10 + d > 2 ^ 63 then None
          else leading_int (x * 10 + d) s)"

text \<open>\<^verbatim>\<open>leadingFraction\<close>: the digits that fit, the power of ten they are scaled by, and the rest.\<close>

fun leading_fraction :: "nat \<Rightarrow> float64 \<Rightarrow> bool \<Rightarrow> string \<Rightarrow> nat \<times> float64 \<times> string" where
  "leading_fraction x scale ov [] = (x, scale, [])"
| "leading_fraction x scale ov (c # s) =
     (case digit_val c of
        None \<Rightarrow> (x, scale, c # s)
      | Some d \<Rightarrow>
          if ov then leading_fraction x scale ov s
          else if x > (2 ^ 63 - 1) div 10 then leading_fraction x scale True s
          else if x * 10 + d > 2 ^ 63 then leading_fraction x scale True s
          else leading_fraction (x * 10 + d) (rnd64 (scale * 10)) False s)"

definition duration_units :: "(string \<times> nat) list" where
  "duration_units =
     [(''ns'', 1), (''us'', 1000), (micro_sign @ ''s'', 1000), ([CHR 0xCE, CHR 0xBC] @ ''s'', 1000),
      (''ms'', 1000000), (''s'', 1000000000), (''m'', 60000000000), (''h'', 3600000000000)]"

datatype duration_error = InvalidDuration | MissingUnit | UnknownUnit string

definition number_char :: "char \<Rightarrow> bool" where
  "number_char c \<longleftrightarrow> c = CHR ''.'' \<or> is_digit c"

text \<open>The optional fraction: its digits, scale, the rest, and whether there was a digit.\<close>

definition duration_fraction :: "string \<Rightarrow> nat \<times> float64 \<times> string \<times> bool" where
  "duration_fraction s =
     (case s of
        c # r \<Rightarrow>
          if c = CHR ''.''
          then case leading_fraction 0 1 False r of (f, scale, r') \<Rightarrow> (f, scale, r', length r' \<noteq> length r)
          else (0, 1, s, False)
      | [] \<Rightarrow> (0, 1, s, False))"

text \<open>One round of the loop: a number with its unit, as nanoseconds, and the rest.\<close>

definition duration_segment :: "string \<Rightarrow> duration_error + (nat \<times> string)" where
  "duration_segment s =
     (if \<not> number_char (hd s) then Inl InvalidDuration
      else case leading_int 0 s of
        None \<Rightarrow> Inl InvalidDuration
      | Some (v, s1) \<Rightarrow>
         (case duration_fraction s1 of (f, scale, s2, post) \<Rightarrow>
            if \<not> (length s1 \<noteq> length s) \<and> \<not> post then Inl InvalidDuration
            else
              let u = takeWhile (\<lambda>c. \<not> number_char c) s2; s3 = drop (length u) s2
              in if u = [] then Inl MissingUnit
                 else case map_of duration_units u of
                   None \<Rightarrow> Inl (UnknownUnit u)
                 | Some unit \<Rightarrow>
                     if v > 2 ^ 63 div unit then Inl InvalidDuration
                     else if 0 < f
                     then
                       (let v' = v * unit
                          + nat \<lfloor>rnd64 (float64_of_int (int f) * fdiv (float64_of_int (int unit)) scale)\<rfloor>
                        in if v' > 2 ^ 63 then Inl InvalidDuration else Inr (v', s3))
                     else Inr (v * unit, s3)))"

lemma leading_int_length: "leading_int x s = Some (v, r) \<Longrightarrow> length r \<le> length s"
  by (induction x s rule: leading_int.induct) (auto split: option.split_asm if_split_asm)

lemma leading_fraction_length: "leading_fraction x sc ov s = (f, sc', r) \<Longrightarrow> length r \<le> length s"
  by (induction x sc ov s rule: leading_fraction.induct) (auto split: option.split_asm if_split_asm)

lemma duration_fraction_length: "duration_fraction s = (f, sc, r, post) \<Longrightarrow> length r \<le> length s"
  by (auto simp: duration_fraction_def dest: leading_fraction_length
      split: list.split_asm if_split_asm prod.split_asm)

lemma takeWhile_shorter: "takeWhile P xs \<noteq> [] \<Longrightarrow> length xs - length (takeWhile P xs) < length xs"
  by (cases xs) auto

lemma duration_segment_length: "duration_segment s = Inr (v, r) \<Longrightarrow> s \<noteq> [] \<Longrightarrow> length r < length s"
  unfolding duration_segment_def Let_def
  by (auto split: if_split_asm option.split_asm prod.split_asm
      dest!: leading_int_length duration_fraction_length takeWhile_shorter)

function duration_loop :: "nat \<Rightarrow> string \<Rightarrow> duration_error + nat" where
  "duration_loop d s =
     (if s = [] then Inr d
      else case duration_segment s of
        Inl e \<Rightarrow> Inl e
      | Inr (v, r) \<Rightarrow>
          let d' = (d + v) mod 2 ^ 64
          in if d' > 2 ^ 63 then Inl InvalidDuration else duration_loop d' r)"
  by pat_completeness auto
termination
  by (relation "measure (length \<circ> snd)") (auto dest: duration_segment_length)

declare duration_loop.simps [simp del]

definition parse_duration :: "string \<Rightarrow> duration_error + duration" where
  "parse_duration s =
     (let neg = (case s of c # _ \<Rightarrow> c = CHR ''-'' | [] \<Rightarrow> False);
          body = (case s of c # r \<Rightarrow> if c = CHR ''-'' \<or> c = CHR ''+'' then r else s | [] \<Rightarrow> [])
      in if body = ''0'' then Inr 0
         else if body = [] then Inl InvalidDuration
         else case duration_loop 0 body of
           Inl e \<Rightarrow> Inl e
         | Inr d \<Rightarrow>
             if neg then Inr (- int d)
             else if d > 2 ^ 63 - 1 then Inl InvalidDuration
             else Inr (int d))"

section \<open>The codecs of the configuration\<close>

text \<open>
  What decoding the value as a string and as an integer gives is a parameter: the first decides, and
  the second is tried when the first fails. A plain number counts seconds, with the wrap-around of the
  multiplication. The two decoders differ in the error they return.
\<close>

datatype 'e duration_failure = DecodeFailed 'e | BadDuration string duration_error

definition duration_text :: "string \<Rightarrow> 'e duration_failure + duration" where
  "duration_text s =
     (case parse_duration s of Inl e \<Rightarrow> Inl (BadDuration s e) | Inr p \<Rightarrow> Inr p)"

definition duration_unmarshal_yaml :: "'e + string \<Rightarrow> 'e + go_int \<Rightarrow> 'e duration_failure + duration" where
  "duration_unmarshal_yaml as_string as_int =
     (case as_string of
        Inr s \<Rightarrow> duration_text s
      | Inl err \<Rightarrow> (case as_int of Inl _ \<Rightarrow> Inl (DecodeFailed err) | Inr n \<Rightarrow> Inr (wrap64 (n * second))))"

definition duration_unmarshal_json :: "'e + string \<Rightarrow> 'e + go_int \<Rightarrow> 'e duration_failure + duration" where
  "duration_unmarshal_json as_string as_int =
     (case as_string of
        Inr s \<Rightarrow> duration_text s
      | Inl _ \<Rightarrow> (case as_int of Inl err \<Rightarrow> Inl (DecodeFailed err) | Inr n \<Rightarrow> Inr (wrap64 (n * second))))"

text \<open>Both encoders encode this string.\<close>

definition duration_marshal :: "duration \<Rightarrow> string" where
  "duration_marshal d = duration_string d"

section \<open>Digits\<close>

text \<open>Texts of decimal digits and the number they denote.\<close>

definition digit_text :: "nat list \<Rightarrow> string" where
  "digit_text ds = map digit_char ds"

definition digits_value :: "nat \<Rightarrow> nat list \<Rightarrow> nat" where
  "digits_value x ds = foldl (\<lambda>x d. x * 10 + d) x ds"

definition is_digits :: "nat list \<Rightarrow> bool" where
  "is_digits ds \<longleftrightarrow> (\<forall>d \<in> set ds. d < 10)"

lemma digit_val_char [simp]: "d < 10 \<Longrightarrow> digit_val (digit_char d) = Some d"
  by (simp add: digit_val_def digit_char_def Let_def)

lemma digits_simps [simp]:
  "digit_text [] = []" "digit_text (d # ds) = digit_char d # digit_text ds"
  "digit_text (ds @ es) = digit_text ds @ digit_text es"
  "digits_value x [] = x" "digits_value x (d # ds) = digits_value (x * 10 + d) ds"
  "digits_value x (ds @ es) = digits_value (digits_value x ds) es"
  "is_digits []" "is_digits (d # ds) \<longleftrightarrow> d < 10 \<and> is_digits ds" "is_digits (ds @ es) \<longleftrightarrow> is_digits ds \<and> is_digits es"
  by (auto simp: digit_text_def digits_value_def is_digits_def)

lemma digits_value_ge: "x \<le> digits_value x ds"
proof (induction ds arbitrary: x)
  case (Cons d ds)
  have "x \<le> x * 10 + d" by simp
  also have "\<dots> \<le> digits_value (x * 10 + d) ds" by (rule Cons.IH)
  finally show ?case by simp
qed simp

lemma digits_value_lt: "is_digits ds \<Longrightarrow> digits_value x ds < (x + 1) * 10 ^ length ds"
proof (induction ds arbitrary: x)
  case (Cons d ds)
  then have "digits_value (x * 10 + d) ds < (x * 10 + d + 1) * 10 ^ length ds" by simp
  also have "\<dots> \<le> ((x + 1) * 10) * 10 ^ length ds" using Cons.prems by (intro mult_right_mono) auto
  finally show ?case by (simp add: algebra_simps)
qed simp

lemma format_uint_text:
  "\<exists>ds. format_uint n = digit_text ds \<and> is_digits ds \<and> ds \<noteq> [] \<and> digits_value 0 ds = n"
proof (induction n rule: format_uint.induct)
  case (1 n)
  show ?case
  proof (cases "n < 10")
    case True
    then show ?thesis by (intro exI [where x = "[n]"]) (simp add: format_uint.simps [of n])
  next
    case False
    then obtain ds where "format_uint (n div 10) = digit_text ds" "is_digits ds" "digits_value 0 ds = n div 10"
      using 1 by blast
    with False show ?thesis
      by (intro exI [where x = "ds @ [n mod 10]"]) (simp add: format_uint.simps [of n])
  qed
qed

text \<open>Where a number ends.\<close>

definition no_digit :: "string \<Rightarrow> bool" where
  "no_digit s \<longleftrightarrow> (case s of [] \<Rightarrow> True | c # _ \<Rightarrow> \<not> is_digit c)"

lemma leading_int_digits:
  "is_digits ds \<Longrightarrow> no_digit r \<Longrightarrow> digits_value x ds \<le> 2 ^ 63 \<Longrightarrow>
    leading_int x (digit_text ds @ r) = Some (digits_value x ds, r)"
proof (induction ds arbitrary: x)
  case Nil
  then show ?case by (cases r) (auto simp: no_digit_def is_digit_def split: option.split)
next
  case (Cons d ds)
  have "x * 10 + d \<le> 2 ^ 63" using digits_value_ge [of "x * 10 + d" ds] Cons.prems(3) by simp
  moreover from this have "x \<le> 2 ^ 63 div 10" by simp
  ultimately show ?case using Cons by simp
qed

lemma leading_fraction_digits:
  "is_digits ds \<Longrightarrow> no_digit r \<Longrightarrow> k + length ds \<le> 9 \<Longrightarrow> x < 10 ^ k \<Longrightarrow>
    leading_fraction x (10 ^ k) False (digit_text ds @ r) = (digits_value x ds, 10 ^ (k + length ds), r)"
proof (induction ds arbitrary: x k)
  case Nil
  then show ?case by (cases r) (auto simp: no_digit_def is_digit_def split: option.split)
next
  case (Cons d ds)
  have k: "(10::nat) ^ k \<le> 10 ^ 8" using Cons.prems(3) by (intro power_increasing) auto
  then have x: "x \<le> (2 ^ 63 - 1) div 10" "x * 10 + d \<le> 2 ^ 63" using Cons.prems(1,4) by auto
  have "(10::nat) ^ k * 10 \<le> 2 ^ 53" using k by simp
  then have "rnd64 (of_nat (10 ^ k * 10)) = of_nat (10 ^ k * 10)"
    using is_float64_nat unfolding is_float64_def by blast
  then have sc: "rnd64 (10 ^ k * 10) = 10 ^ Suc k" by simp
  have "leading_fraction (x * 10 + d) (10 ^ Suc k) False (digit_text ds @ r)
      = (digits_value (x * 10 + d) ds, 10 ^ (Suc k + length ds), r)"
    using Cons.prems by (intro Cons.IH) auto
  then show ?case using Cons.prems(1) x sc by simp
qed

text \<open>The last digits of a number, a fixed count of them.\<close>

fun fixed_digits :: "nat \<Rightarrow> nat \<Rightarrow> nat list" where
  "fixed_digits 0 v = []"
| "fixed_digits (Suc n) v = fixed_digits n (v div 10) @ [v mod 10]"

lemma mod_power_Suc: "v mod 10 ^ Suc n = (v div 10) mod 10 ^ n * 10 + v mod (10::nat)"
  by (simp add: mod_mult2_eq)

lemma fixed_digits_facts [simp]:
  "length (fixed_digits n v) = n" "is_digits (fixed_digits n v)" "digits_value 0 (fixed_digits n v) = v mod 10 ^ n"
  by (induction n arbitrary: v) (simp_all add: mod_power_Suc del: power_Suc)

lemma div_power_Suc: "(v div 10) div 10 ^ n = v div (10::nat) ^ Suc n"
  by (simp add: div_mult2_eq)

lemma frac_digits_shown:
  "frac_digits prec True v buf = (CHR ''.'' # digit_text (fixed_digits prec v) @ buf, v div 10 ^ prec)"
  by (induction prec arbitrary: v buf) (simp_all add: div_power_Suc Let_def del: power_Suc)

lemma frac_digits_hidden:
  "\<exists>ds. frac_digits prec False v buf =
      (if v mod 10 ^ prec = 0 then buf else CHR ''.'' # digit_text ds @ buf, v div 10 ^ prec)
    \<and> is_digits ds \<and> length ds \<le> prec \<and> digits_value 0 ds * 10 ^ (prec - length ds) = v mod 10 ^ prec"
proof (induction prec arbitrary: v buf)
  case (Suc n)
  show ?case
  proof (cases "v mod 10 = 0")
    case True
    obtain ds where ds: "frac_digits n False (v div 10) buf =
        (if (v div 10) mod 10 ^ n = 0 then buf else CHR ''.'' # digit_text ds @ buf, (v div 10) div 10 ^ n)"
      "is_digits ds" "length ds \<le> n" "digits_value 0 ds * 10 ^ (n - length ds) = (v div 10) mod 10 ^ n"
      using Suc.IH by blast
    have "digits_value 0 ds * 10 ^ (Suc n - length ds) = v mod 10 ^ Suc n"
      using ds(3,4) True by (simp add: Suc_diff_le mod_power_Suc algebra_simps del: power_Suc) (simp add: algebra_simps)
    moreover have "frac_digits (Suc n) False v buf = frac_digits n False (v div 10) buf"
      using True by (simp add: Let_def)
    moreover have "(v div 10) mod 10 ^ n = 0 \<longleftrightarrow> v mod 10 ^ Suc n = 0"
      using True by (simp only: mod_power_Suc) simp
    ultimately show ?thesis
      using ds(1-3) by (intro exI [where x = ds]) (simp add: div_power_Suc del: power_Suc)
  next
    case False
    have "frac_digits (Suc n) False v buf = (CHR ''.'' # digit_text (fixed_digits (Suc n) v) @ buf, v div 10 ^ Suc n)"
      using False by (simp add: Let_def frac_digits_shown div_power_Suc del: power_Suc)
    moreover have "v mod 10 ^ Suc n \<noteq> 0" using False by (simp add: mod_power_Suc del: power_Suc)
    ultimately show ?thesis
      by (intro exI [where x = "fixed_digits (Suc n) v"]) (simp del: fixed_digits.simps power_Suc)
  qed
qed simp

section \<open>Segments\<close>

definition unit_text :: "string \<Rightarrow> bool" where
  "unit_text u \<longleftrightarrow> u \<noteq> [] \<and> (\<forall>c \<in> set u. \<not> number_char c)"

definition ends_unit :: "string \<Rightarrow> bool" where
  "ends_unit r \<longleftrightarrow> (case r of [] \<Rightarrow> True | c # _ \<Rightarrow> number_char c)"

lemma take_unit: "unit_text u \<Longrightarrow> ends_unit r \<Longrightarrow> takeWhile (\<lambda>c. \<not> number_char c) (u @ r) = u"
  by (cases r) (auto simp: unit_text_def ends_unit_def takeWhile_append)

lemma unit_no_digit: "unit_text u \<Longrightarrow> no_digit (u @ r)"
  by (cases u) (auto simp: unit_text_def no_digit_def number_char_def)

lemma unit_no_dot: "unit_text u \<Longrightarrow> \<exists>c r'. u @ r = c # r' \<and> c \<noteq> CHR ''.''"
  by (cases u) (auto simp: unit_text_def number_char_def)

lemma format_uint_first:
  obtains c s where "format_uint n = c # s" "is_digit c" "number_char c"
proof -
  obtain ds where "format_uint n = digit_text ds" "is_digits ds" "ds \<noteq> []" using format_uint_text by blast
  then show thesis using that by (cases ds) (auto simp: is_digit_def number_char_def)
qed

lemma leading_int_format:
  assumes "no_digit r" and "n \<le> 2 ^ 63"
  shows "leading_int 0 (format_uint n @ r) = Some (n, r)"
proof -
  obtain ds where "format_uint n = digit_text ds" "is_digits ds" "digits_value 0 ds = n" using format_uint_text by blast
  with leading_int_digits [of ds r 0] assms show ?thesis by simp
qed

lemma segment_plain:
  assumes "unit_text u" and "ends_unit r" and "map_of duration_units u = Some k" and "0 < k" and "n * k \<le> 2 ^ 63"
  shows "duration_segment (format_uint n @ u @ r) = Inr (n * k, r)"
proof -
  obtain c s where c: "format_uint n = c # s" "number_char c" by (rule format_uint_first)
  obtain c' r' where u: "u @ r = c' # r'" "c' \<noteq> CHR ''.''" using unit_no_dot [OF assms(1)] by blast
  have "n \<le> n * k" using assms(4) by simp
  then have li: "leading_int 0 (format_uint n @ u @ r) = Some (n, u @ r)"
    using assms(5) by (intro leading_int_format unit_no_digit assms(1)) linarith
  have fr: "duration_fraction (u @ r) = (0, 1, u @ r, False)" using u by (simp add: duration_fraction_def)
  have "n \<le> 2 ^ 63 div k" using assms(4,5) by (simp add: less_eq_div_iff_mult_less_eq)
  then have small: "\<not> 2 ^ 63 div k < n" by simp
  show ?thesis
    unfolding duration_segment_def li fr option.case prod.case Let_def take_unit [OF assms(1,2)] assms(3)
    using small c assms(1) by (simp add: unit_text_def)
qed

text \<open>The rounding of the fraction is exact: the digits of a fraction are at most those of its unit.\<close>

lemma fraction_exact:
  assumes "k \<le> p" and "p \<le> 9" and "f < 10 ^ k"
  shows "nat \<lfloor>rnd64 (float64_of_int (int f) * fdiv (float64_of_int (int (10 ^ p))) (10 ^ k))\<rfloor> = f * 10 ^ (p - k)"
proof -
  have exact: "rnd64 (of_nat n) = of_nat n" if "n \<le> 10 ^ 9" for n :: nat
    using is_float64_nat [of n] that unfolding is_float64_def by simp
  have p: "(10::nat) ^ p \<le> 10 ^ 9" using assms(2) by (intro power_increasing) auto
  have "(10::nat) ^ k \<le> 10 ^ p" using assms(1) by (intro power_increasing) auto
  then have f: "f \<le> 10 ^ 9" using assms(3) p by linarith
  have pk: "(10::nat) ^ (p - k) \<le> 10 ^ 9" using assms(2) by (intro power_increasing) auto
  have "f * 10 ^ (p - k) \<le> 10 ^ k * 10 ^ (p - k)" using assms(3) by (intro mult_right_mono) auto
  then have prod: "f * 10 ^ (p - k) \<le> 10 ^ 9" using assms(1) p by (simp add: power_add [symmetric])
  have "float64_of_int (int f) = of_nat f" using exact [OF f] by (simp add: float64_of_int_def)
  moreover have "float64_of_int (int (10 ^ p)) = of_nat (10 ^ p)"
    using exact [OF p] by (simp add: float64_of_int_def)
  moreover have "fdiv (of_nat (10 ^ p)) (10 ^ k) = of_nat (10 ^ (p - k))"
  proof -
    have "(10::rat) ^ p = 10 ^ (p - k) * 10 ^ k" using assms(1) by (simp add: power_add [symmetric])
    then have "(of_nat (10 ^ p) :: rat) / 10 ^ k = of_nat (10 ^ (p - k))" by simp
    then show ?thesis using exact [OF pk] by (simp only: fdiv_def)
  qed
  moreover have "rnd64 (of_nat f * of_nat (10 ^ (p - k))) = of_nat (f * 10 ^ (p - k))"
    using exact [OF prod] by (simp only: of_nat_mult)
  ultimately have "rnd64 (float64_of_int (int f) * fdiv (float64_of_int (int (10 ^ p))) (10 ^ k)) = of_nat (f * 10 ^ (p - k))"
    by simp
  then show ?thesis by (metis floor_of_nat nat_int)
qed

lemma segment_fraction:
  assumes "unit_text u" and "map_of duration_units u = Some (10 ^ p)" and "p \<le> 9"
    and "n * 10 ^ p + v mod 10 ^ p \<le> 2 ^ 63"
  shows "duration_segment (format_uint n @ fst (fmt_frac p v u)) = Inr (n * 10 ^ p + v mod 10 ^ p, [])"
proof -
  obtain ds where ds: "fst (fmt_frac p v u) = (if v mod 10 ^ p = 0 then u else CHR ''.'' # digit_text ds @ u)"
    "is_digits ds" "length ds \<le> p" "digits_value 0 ds * 10 ^ (p - length ds) = v mod 10 ^ p"
    using frac_digits_hidden [of p v u] by (auto simp: fmt_frac_def)
  show ?thesis
  proof (cases "v mod 10 ^ p = 0")
    case True
    then show ?thesis
      using segment_plain [OF assms(1) _ assms(2), of "[]" n] assms(4) ds(1) by (simp add: ends_unit_def)
  next
    case False
    obtain c s where c: "format_uint n = c # s" "number_char c" by (rule format_uint_first)
    have "n \<le> n * 10 ^ p" by simp
    then have "n \<le> 2 ^ 63" using assms(4) by linarith
    then have li: "leading_int 0 (format_uint n @ CHR ''.'' # digit_text ds @ u) = Some (n, CHR ''.'' # digit_text ds @ u)"
      by (intro leading_int_format) (simp_all add: no_digit_def is_digit_def digit_val_def)
    have f0: "0 < digits_value 0 ds" using False ds(4) by (cases "digits_value 0 ds") auto
    then have ne: "ds \<noteq> []" by auto
    have lf: "leading_fraction 0 1 False (digit_text ds @ u) = (digits_value 0 ds, 10 ^ length ds, u)"
      using leading_fraction_digits [OF ds(2) unit_no_digit [OF assms(1), of "[]"], of 0 0] ds(3) assms(3) by simp
    have fr: "duration_fraction (CHR ''.'' # digit_text ds @ u) = (digits_value 0 ds, 10 ^ length ds, u, True)"
      using ne by (simp add: duration_fraction_def lf) (cases ds, simp_all)
    have "n \<le> 2 ^ 63 div 10 ^ p" using assms(4) by (simp add: less_eq_div_iff_mult_less_eq)
    then have small: "\<not> 2 ^ 63 div 10 ^ p < n" by simp
    have "digits_value 0 ds < 10 ^ length ds" using digits_value_lt [OF ds(2), of 0] by simp
    from fraction_exact [OF ds(3) assms(3) this]
    have ex: "nat \<lfloor>rnd64 (float64_of_int (int (digits_value 0 ds)) * fdiv (float64_of_int (int (10 ^ p))) (10 ^ length ds))\<rfloor>
        = v mod 10 ^ p" using ds(4) by simp
    have fst: "fst (fmt_frac p v u) = CHR ''.'' # digit_text ds @ u" using ds(1) False by simp
    have tk: "takeWhile (\<lambda>c. \<not> number_char c) u = u"
      using take_unit [OF assms(1), of "[]"] by (simp add: ends_unit_def)
    show ?thesis
      unfolding fst duration_segment_def li fr option.case prod.case Let_def tk assms(2) ex
      using small c f0 assms(1,4) by (simp add: unit_text_def)
  qed
qed

section \<open>The round trip\<close>

lemma duration_loop_Nil: "duration_loop d [] = Inr d"
  by (simp add: duration_loop.simps)

lemma duration_loop_step:
  "duration_segment s = Inr (v, r) \<Longrightarrow> s \<noteq> [] \<Longrightarrow> d + v \<le> 2 ^ 63 \<Longrightarrow> duration_loop d s = duration_loop (d + v) r"
  by (subst duration_loop.simps) (simp add: Let_def)

lemma units_known:
  "unit_text ''ns'' \<and> map_of duration_units ''ns'' = Some (10 ^ 0)"
  "unit_text (micro_sign @ ''s'') \<and> map_of duration_units (micro_sign @ ''s'') = Some (10 ^ 3)"
  "unit_text ''ms'' \<and> map_of duration_units ''ms'' = Some (10 ^ 6)"
  "unit_text ''s'' \<and> map_of duration_units ''s'' = Some (10 ^ 9)"
  "unit_text ''m'' \<and> map_of duration_units ''m'' = Some 60000000000"
  "unit_text ''h'' \<and> map_of duration_units ''h'' = Some 3600000000000"
  by (simp_all add: unit_text_def number_char_def is_digit_def digit_val_def duration_units_def micro_sign_def)

lemma loop_fraction:
  assumes "unit_text u \<and> map_of duration_units u = Some (10 ^ p)" and "p \<le> 9"
    and "d + n * 10 ^ p + v mod 10 ^ p \<le> 2 ^ 63"
  shows "duration_loop d (format_uint n @ fst (fmt_frac p v u)) = Inr (d + n * 10 ^ p + v mod 10 ^ p)"
proof -
  have seg: "duration_segment (format_uint n @ fst (fmt_frac p v u)) = Inr (n * 10 ^ p + v mod 10 ^ p, [])"
    using assms by (intro segment_fraction) simp_all
  have "duration_loop d (format_uint n @ fst (fmt_frac p v u)) = duration_loop (d + (n * 10 ^ p + v mod 10 ^ p)) []"
    by (rule duration_loop_step [OF seg]) (use assms(3) in simp_all)
  then show ?thesis by (simp add: duration_loop_Nil add.assoc)
qed

lemma loop_plain:
  assumes "unit_text u \<and> map_of duration_units u = Some k" and "0 < k" and "d + n * k \<le> 2 ^ 63"
  shows "duration_loop d (format_uint n @ u @ format_uint m @ t) = duration_loop (d + n * k) (format_uint m @ t)"
proof -
  obtain c s where "format_uint m = c # s" "number_char c" by (rule format_uint_first)
  then have "ends_unit (format_uint m @ t)" by (simp add: ends_unit_def)
  from segment_plain [OF _ this, of u k n] assms
  have seg: "duration_segment (format_uint n @ u @ format_uint m @ t) = Inr (n * k, format_uint m @ t)" by simp
  show ?thesis by (rule duration_loop_step [OF seg _ assms(3)]) simp
qed

lemma fmt_frac_snd: "snd (fmt_frac p v buf) = v div 10 ^ p"
  using frac_digits_hidden [of p v buf] by (auto simp: fmt_frac_def)

lemma time_parts:
  fixes u :: nat
  assumes "secs = u div 10 ^ 9" and "mins = secs div 60" and "hours = mins div 60"
  shows "hours * 3600000000000 + (mins mod 60) * 60000000000 + (secs mod 60) * 10 ^ 9 + u mod 10 ^ 9 = u"
proof -
  have "secs * 10 ^ 9 + u mod 10 ^ 9 = u" by (simp add: assms(1))
  moreover have "mins * 60 + secs mod 60 = secs" "hours * 60 + mins mod 60 = mins" by (simp_all add: assms(2,3))
  ultimately show ?thesis by simp
qed

lemma loop_magnitude:
  assumes "u \<le> 2 ^ 63"
  shows "duration_loop 0 (duration_magnitude u) = Inr u"
proof -
  consider "u = 0" | "0 < u" "u < 1000" | "1000 \<le> u" "u < 1000000" | "1000000 \<le> u" "u < 1000000000"
    | "1000000000 \<le> u" by linarith
  then show ?thesis
  proof cases
    case 1
    have "format_uint 0 = ''0''" "fst (fmt_frac 9 0 ''s'') = ''s''" by code_simp+
    then show ?thesis
      using 1 loop_fraction [OF units_known(4), of 0 0 0] by (simp add: duration_magnitude_def)
  next
    case 2
    then show ?thesis
      using loop_fraction [OF units_known(1), of 0 u u] assms
      by (simp add: duration_magnitude_def case_prod_unfold fmt_frac_snd)
  next
    case 3
    then show ?thesis
      using loop_fraction [OF units_known(2), of 0 "u div 10 ^ 3" u] assms
      by (simp add: duration_magnitude_def case_prod_unfold fmt_frac_snd)
  next
    case 4
    then show ?thesis
      using loop_fraction [OF units_known(3), of 0 "u div 10 ^ 6" u] assms
      by (simp add: duration_magnitude_def case_prod_unfold fmt_frac_snd)
  next
    case 5
    define secs mins hours where "secs = u div 10 ^ 9" and "mins = secs div 60" and "hours = mins div 60"
    note parts = time_parts [OF secs_def mins_def hours_def]
    let ?buf = "fst (fmt_frac 9 u ''s'')"
    let ?sec = "format_uint (secs mod 60) @ ?buf"
    let ?min = "format_uint (mins mod 60) @ ''m'' @ ?sec"
    have form: "duration_magnitude u = (if mins = 0 then ?sec else if hours = 0 then ?min
        else format_uint hours @ ''h'' @ ?min)"
      using 5 by (simp add: duration_magnitude_def case_prod_unfold fmt_frac_snd Let_def secs_def mins_def hours_def)
    have sec: "duration_loop d ?sec = Inr (d + secs mod 60 * 10 ^ 9 + u mod 10 ^ 9)"
      if "d + secs mod 60 * 10 ^ 9 + u mod 10 ^ 9 \<le> 2 ^ 63" for d
      using that by (intro loop_fraction [OF units_known(4)]) simp_all
    have min: "duration_loop d ?min = Inr (d + mins mod 60 * 60000000000 + secs mod 60 * 10 ^ 9 + u mod 10 ^ 9)"
      if "d + mins mod 60 * 60000000000 + secs mod 60 * 10 ^ 9 + u mod 10 ^ 9 \<le> 2 ^ 63" for d
      using loop_plain [OF units_known(5), of d "mins mod 60" "secs mod 60" ?buf] sec [of "d + mins mod 60 * 60000000000"] that
      by simp
    have hour: "duration_loop 0 (format_uint hours @ ''h'' @ ?min) =
        Inr (hours * 3600000000000 + mins mod 60 * 60000000000 + secs mod 60 * 10 ^ 9 + u mod 10 ^ 9)"
      using loop_plain [OF units_known(6), of 0 hours "mins mod 60" "''m'' @ ?sec"] min [of "hours * 3600000000000"]
        parts assms by simp
    show ?thesis
    proof (cases "mins = 0")
      case True
      then show ?thesis using form sec [of 0] parts assms by (simp add: hours_def)
    next
      case False
      then show ?thesis using form min [of 0] hour parts assms by (cases "hours = 0") simp_all
    qed
  qed
qed

lemma magnitude_head:
  obtains c c' s where "duration_magnitude u = c # c' # s" "is_digit c"
proof -
  define P where "P = (\<lambda>x. \<exists>c c' s. x = c # c' # s \<and> is_digit c)"
  have two: "P (format_uint n @ b)" if b: "b \<noteq> []" for n b
  proof -
    obtain c s where "format_uint n = c # s" "is_digit c" by (rule format_uint_first)
    then show ?thesis using b by (cases "s @ b") (auto simp: P_def)
  qed
  have ne: "fst (fmt_frac p v b) \<noteq> []" if "b \<noteq> []" for p v b
    using frac_digits_hidden [of p v b] that by (auto simp: fmt_frac_def split: if_split_asm)
  have "P ''0s''" by (simp add: P_def is_digit_def digit_val_def)
  then have "P (duration_magnitude u)"
    unfolding duration_magnitude_def Let_def case_prod_unfold by (simp add: two ne)
  then show thesis using that by (auto simp: P_def)
qed

lemma parse_duration_string:
  assumes "- (2 ^ 63) \<le> d" and "d < 2 ^ 63"
  shows "parse_duration (duration_string d) = Inr d"
proof -
  have m: "duration_loop 0 (duration_magnitude u) = Inr u" if "u \<le> 2 ^ 63" for u
    using that by (rule loop_magnitude)
  obtain c c' s where h: "duration_magnitude (nat \<bar>d\<bar>) = c # c' # s" "is_digit c" by (rule magnitude_head)
  have c: "c \<noteq> CHR ''-''" "c \<noteq> CHR ''+''" using h(2) by (auto simp: is_digit_def digit_val_def)
  show ?thesis
  proof (cases "d < 0")
    case True
    have "nat (- d) \<le> 2 ^ 63" using assms(1) by (simp add: nat_le_iff)
    with True m [of "nat (- d)"] h show ?thesis
      by (simp add: parse_duration_def duration_string_def Let_def)
  next
    case False
    have "nat d \<le> 2 ^ 63" "\<not> nat d > 2 ^ 63 - 1" using assms(2) by (simp_all add: nat_le_iff not_less)
    with False m [of "nat d"] h c show ?thesis
      by (simp add: parse_duration_def duration_string_def Let_def)
  qed
qed

text \<open>
  C22. Durations survive the configuration endpoint: every 64-bit duration, the most negative one
  included, is read back exactly from the text both encoders write for it, by both decoders; and a
  plain number is taken as seconds, exactly as long as it fits.
\<close>

theorem duration_round_trip:
  assumes "- (2 ^ 63) \<le> d" and "d < 2 ^ 63"
  shows "duration_unmarshal_yaml (Inr (duration_marshal d)) i = Inr d
    \<and> duration_unmarshal_json (Inr (duration_marshal d)) i = Inr d
    \<and> (\<bar>n\<bar> \<le> 9223372036 \<longrightarrow> duration_unmarshal_yaml (Inl e) (Inr n) = Inr (n * second)
        \<and> duration_unmarshal_json (Inl e) (Inr n) = Inr (n * second))"
proof -
  have "wrap64 (n * second) = n * second" if "\<bar>n\<bar> \<le> 9223372036"
    using that by (intro wrap64_id) (simp_all add: second_def)
  then show ?thesis
    using parse_duration_string [OF assms]
    by (simp add: duration_unmarshal_yaml_def duration_unmarshal_json_def duration_marshal_def duration_text_def)
qed

end
