(* ===== verification/ScrapeWitnesses.thy ===== *)
theory ScrapeWitnesses
  imports Examples Api WatcherSteps DurationText
begin

text \<open>The properties of the scrape, of the server and of the watcher, applied to concrete inputs.\<close>

section \<open>One published scan\<close>

lemma ex_snapshot:
  obtains a' snap where "apply_scan 0 (ex_res ex_procs) 60 ex_agg = (a', snap)"
  by (cases "apply_scan 0 (ex_res ex_procs) 60 ex_agg")

theorem snapshot_exact_witness:
  "\<exists>a' snap s. apply_scan 0 (ex_res ex_procs) 60 ex_agg = (a', snap)
    \<and> sum_list (map sa_num_procs (sn_list snap)) = 3
    \<and> map_of (sn_groups snap) ex_key = Some s \<and> sa_num_procs s = 2 \<and> sa_open_fds s = 6"
proof -
  obtain a' snap s where a: "apply_scan 0 (ex_res ex_procs) 60 ex_agg = (a', snap)"
    "map_of (sn_groups snap) ex_key = Some s" by (rule ex_apply_Some)
  have "sum_list (map sa_num_procs (sn_list snap)) = length (rs_procs (ex_res ex_procs))"
    and g: "\<And>ms. ms = members ex_key (rs_procs (ex_res ex_procs)) \<longrightarrow> sa_num_procs s = length ms
      \<and> sa_open_fds s = wrap64 (sum_list (map p_open_fds (filter counted ms)))"
    using snapshot_exact [OF a(1)] a(2) by blast+
  then have "sum_list (map sa_num_procs (sn_list snap)) = 3" by (simp add: ex_res_def ex_procs_def)
  moreover have "sa_num_procs s = 2 \<and> sa_open_fds s = 6"
    using g [THEN mp, OF refl] unfolding ex_members by (simp add: ex_process_def base_process_def wrap64_def counted_def)
  ultimately show ?thesis using a by blast
qed

theorem group_extremes_witness:
  "\<exists>a' snap s. apply_scan 0 (ex_res ex_procs) 60 ex_agg = (a', snap) \<and> map_of (sn_groups snap) ex_key = Some s
    \<and> 1 / 2 \<le> sa_worst_fd_ratio s \<and> io_coverage s = 1 \<and> pss_coverage s \<le> 1"
proof -
  obtain a' snap s where a: "apply_scan 0 (ex_res ex_procs) 60 ex_agg = (a', snap)"
    "map_of (sn_groups snap) ex_key = Some s" by (rule ex_apply_Some)
  let ?ms = "members ex_key (rs_procs (ex_res ex_procs))"
  have "0 \<le> start_time_unix ex_sys 300"
    by (simp add: start_time_unix_def fadd_def rnd64_nonneg ticks_to_seconds_nonneg ex_sys_def)
  then have nn: "\<forall>p \<in> set (rs_procs (ex_res ex_procs)). 0 \<le> p_start_unix p"
    by (simp add: ex_res_def ex_procs_def ex_process_def base_process_def)
  have io: "\<forall>p \<in> set ?ms. p_have_io p"
    unfolding ex_members by (simp add: ex_process_def base_process_def)
  have p: "ex_process ''sshd'' 50 \<in> set ?ms" "counted (ex_process ''sshd'' 50)"
    "p_fd_ratio (ex_process ''sshd'' 50) = 1 / 2"
    unfolding ex_members by (simp_all add: ex_process_def base_process_def counted_def)
  have w: "\<forall>p \<in> set ?ms. counted p \<longrightarrow> p_fd_ratio p \<le> sa_worst_fd_ratio s"
    and c: "\<forall>c \<in> {fd_coverage s, io_coverage s, pss_coverage s}. 0 \<le> c \<and> c \<le> 1"
    and f: "(\<forall>p \<in> set ?ms. p_have_io p) \<longrightarrow> io_coverage s = 1"
    using group_extremes [OF a refl nn] by blast+
  have "1 / 2 \<le> sa_worst_fd_ratio s" using w p by metis
  with a c f io show ?thesis by simp
qed

theorem scrape_well_formed_witness:
  "\<exists>a' snap. apply_scan 0 (ex_res ex_procs) 60 ex_agg = (a', snap)
    \<and> distinct (map series (collect (publish snap registry_new)))"
  using scrape_well_formed by (metis ex_snapshot)

theorem scrape_shows_current_groups_witness:
  "\<exists>a' snap. apply_scan 0 (ex_res ex_procs) 60 ex_agg = (a', snap)
    \<and> (\<lambda>m. take 2 (m_labels m)) ` set (collect (publish snap registry_new)) = {[''sshd'', ''root''], [''cron'', ''root'']}"
proof -
  obtain a' snap where a: "apply_scan 0 (ex_res ex_procs) 60 ex_agg = (a', snap)" by (rule ex_snapshot)
  have "(\<lambda>p. [p_name p, p_user p]) ` set (rs_procs (ex_res ex_procs)) = {[''sshd'', ''root''], [''cron'', ''root'']}"
    by (auto simp: ex_res_def ex_procs_def ex_process_def base_process_def)
  with a scrape_shows_current_groups [OF a, of registry_new] show ?thesis by metis
qed


theorem self_metrics_account_witness:
  "\<exists>s' res a' snap scanned. scan ex_sys (\<lambda>_. None) ex_cfg ex_filter ex_namer (ex_world ''100'') ex_scanner = (s', Inr res)
    \<and> apply_scan 0 res 60 ex_agg = (a', snap)
    \<and> last_set ''process_exporter_procs_scanned'' (rg_calls (publish snap registry_new)) = Some (of_nat scanned)
    \<and> scanned = length (rs_procs res)"
proof -
  obtain s' r where s: "scan ex_sys (\<lambda>_. None) ex_cfg ex_filter ex_namer (ex_world ''100'') ex_scanner = (s', Inr r)"
    "rs_total r = 2" by (rule ex_scan_Inr)
  obtain a' snap where a: "apply_scan 0 r 60 ex_agg = (a', snap)" by (cases "apply_scan 0 r 60 ex_agg")
  have "rs_total r \<le> 2 ^ 53" using s(2) by simp
  from self_metrics_account [OF s(1) a this refl, of registry_new] s(1) a show ?thesis by blast
qed

theorem scraped_labels_legal_witness:
  "\<exists>s' res a' snap m name user. scan ex_sys (\<lambda>_. None) ex_cfg ex_filter ex_namer (ex_world ''100'') ex_scanner = (s', Inr res)
    \<and> apply_scan 0 res 60 ex_agg = (a', snap) \<and> m \<in> set (collect (publish snap registry_new))
    \<and> take 2 (m_labels m) = [name, user] \<and> label_value name"
proof -
  obtain s' r where s: "scan ex_sys (\<lambda>_. None) ex_cfg ex_filter ex_namer (ex_world ''100'') ex_scanner = (s', Inr r)"
    "rs_scanned r = 1" by (rule ex_scan_Inr)
  obtain a' snap where a: "apply_scan 0 r 60 ex_agg = (a', snap)" by (cases "apply_scan 0 r 60 ex_agg")
  have "length (rs_procs r) = 1" using scan_outcomes [OF s(1)] s(2) by simp
  then obtain p where "p \<in> set (rs_procs r)" by (cases "rs_procs r") auto
  then have "(\<lambda>m. take 2 (m_labels m)) ` set (collect (publish snap registry_new)) \<noteq> {}"
    using collect_groups [OF a, of registry_new] by auto
  then have "collect (publish snap registry_new) \<noteq> []" by auto
  then obtain m where m: "m \<in> set (collect (publish snap registry_new))" by (metis hd_in_set)
  have "\<exists>name user ls. m_labels m = name # user # ls \<and> label_value name"
    using scraped_labels_legal [OF ex_scanner_inv _ s(1) a m] ex_scanner_gen by auto
  then obtain name user ls where "m_labels m = name # user # ls" "label_value name" by blast
  then have "take 2 (m_labels m) = [name, user] \<and> label_value name" by simp
  with s(1) a m show ?thesis by blast
qed

section \<open>Two published scans\<close>

abbreviation ex_input :: "instant \<times> scan_res \<times> duration" where
  "ex_input \<equiv> (0, ex_res ex_procs, 60)"

definition ex_cpu_series :: "string \<times> string list" where
  "ex_cpu_series = (''process_group_cpu_seconds_total'', [''sshd'', ''root'', ''user''])"

definition cpu_metric :: "registry \<Rightarrow> metric option" where
  "cpu_metric r = find (\<lambda>m. series m = ex_cpu_series \<and> m_type m = CounterValue) (collect r)"

lemma ex_cpu_metric:
  assumes "map_of (sn_groups snap) ex_key = Some s" and "snapshot_wf snap"
  shows "cpu_metric (publish snap r) \<noteq> None"
proof -
  have s: "sa_key s = ex_key" "s \<in> set (sn_list snap)"
    using assms map_of_SomeD [OF assms(1)] by (force simp: snapshot_wf_def)+
  let ?m = "counter_metric desc_cpu_seconds (ac_utime_seconds (sa_accum s)) [''sshd'', ''root'', ''user'']"
  have "?m \<in> set (collect_sample s)"
    using s(1) by (simp add: collect_sample_def collect_counters_def ex_key_def Let_def)
  then have "?m \<in> set (collect (publish snap r))" using s(2) by (auto simp: collect_publish)
  moreover have "series ?m = ex_cpu_series \<and> m_type ?m = CounterValue" by (simp add: ex_cpu_series_def)
  ultimately show ?thesis unfolding cpu_metric_def find_None_iff by blast
qed

lemma ex_counters_fit:
  assumes "apply_scan 0 (ex_res ex_procs) 60 ex_agg = (a1, snap)"
  shows "counters_fit a1 (rs_procs (ex_res ex_procs)) ex_key"
proof -
  obtain s where s: "map_of (sn_groups snap) ex_key = Some s"
    using apply_scan_live [OF assms ex_agg_inv, of ex_key] by (auto simp: ex_members)
  note acc = live_accum [OF assms ex_agg_inv s]
  have a1: "accum_of (ag_accums a1) ex_key
      = fold (add_member ex_sys (apply_now 0 (ex_res ex_procs))) [ex_process ''sshd'' 50, ex_process ''sshd'' 25] empty_accum"
    using acc by (simp add: accum_of_def ex_members ex_agg_def aggregator_new_def)
  show ?thesis
    unfolding counters_fit_def ex_members a1 word_counters_def list.set ball_simps prod.case fold_accum fold_add_word
    by (simp add: with_deltas_def word_deltas_def ex_process_def base_process_def empty_accum_def)
qed

lemma ex_two_scans:
  assumes 1: "publish_run [ex_input] (ex_agg, registry_new) = (a1, r1)"
    and 2: "publish_run [ex_input] (a1, r1) = (a2, r2)"
  shows "cpu_metric r1 \<noteq> None \<and> cpu_metric r2 \<noteq> None \<and> continuous ex_key [ex_input] a1"
proof -
  obtain snap1 where a1: "apply_scan 0 (ex_res ex_procs) 60 ex_agg = (a1, snap1)" and r1: "r1 = publish snap1 registry_new"
    using 1 by (auto split: prod.split_asm)
  obtain snap2 where a2: "apply_scan 0 (ex_res ex_procs) 60 a1 = (a2, snap2)" and r2: "r2 = publish snap2 r1"
    using 2 by (auto split: prod.split_asm)
  have inv: "aggregator_inv a1" using aggregator_invariant_step [OF a1 ex_agg_inv] .
  obtain s1 s2 where s: "map_of (sn_groups snap1) ex_key = Some s1" "map_of (sn_groups snap2) ex_key = Some s2"
    and "map_of (ag_accums a2) ex_key \<noteq> None"
    using apply_scan_live [OF a1 ex_agg_inv, of ex_key] apply_scan_live [OF a2 inv, of ex_key]
    by (auto simp: ex_members)
  then have "continuous ex_key [ex_input] a1"
    using ex_counters_fit [OF a1] a2 by (simp add: Let_def)
  then show ?thesis
    using ex_cpu_metric [OF s(1) snapshot_wfI [OF a1]] ex_cpu_metric [OF s(2) snapshot_wfI [OF a2]] r1 r2 by simp
qed

theorem scraped_counters_never_decrease_witness:
  "\<exists>r1 r2 m1 m2. snd (publish_run ([] @ [ex_input]) (ex_agg, registry_new)) = r1
    \<and> snd (publish_run ([ex_input] @ [ex_input]) (ex_agg, registry_new)) = r2
    \<and> cpu_metric r1 = Some m1 \<and> cpu_metric r2 = Some m2 \<and> m_value m1 \<le> m_value m2"
proof -
  obtain a1 r1 where 1: "publish_run ([] @ [ex_input]) (ex_agg, registry_new) = (a1, r1)"
    by (cases "publish_run ([] @ [ex_input]) (ex_agg, registry_new)")
  obtain a2 r2 where 2: "publish_run ([] @ [ex_input]) (a1, r1) = (a2, r2)"
    by (cases "publish_run ([] @ [ex_input]) (a1, r1)")
  obtain m1 m2 where m: "cpu_metric r1 = Some m1" "cpu_metric r2 = Some m2"
    and c: "continuous ex_key ([] @ [ex_input]) a1"
    using ex_two_scans [of a1 r1 a2 r2] 1 2 by auto
  have s: "m \<in> set (collect r) \<and> series m = ex_cpu_series \<and> m_type m = CounterValue" if "cpu_metric r = Some m" for r m
    using that by (auto simp: cpu_metric_def find_Some_iff)
  have l: "m_labels m1 = k_name ex_key # k_user ex_key # [''user'']"
    using s [OF m(1)] by (simp add: series_def ex_cpu_series_def ex_key_def)
  have "m_value m1 \<le> m_value m2"
    by (rule scraped_counters_never_decrease [OF ex_agg_inv 1 2 _ _ _ _ _ l c])
       (simp_all add: s [OF m(1)] s [OF m(2)])
  moreover have "snd (publish_run ([ex_input] @ [ex_input]) (ex_agg, registry_new)) = r2"
    using 1 2 publish_run_append [of "[ex_input]" "[ex_input]" "(ex_agg, registry_new)"] by simp
  ultimately show ?thesis using 1 m by (metis snd_conv)
qed

section \<open>The server\<close>

definition ex_server :: "registry \<Rightarrow> api_server" where
  "ex_server r = \<lparr>sv_cfg = c_server ex_cfg,
     sv_deps = \<lparr>dp_config = ex_cfg, dp_metrics = r, dp_version = ''1'', dp_started_at = 0\<rparr>,
     sv_addr = ''0.0.0.0:9256'', sv_routes = [], sv_read_header_timeout = 10 * second\<rparr>"

lemma ex_cfg_valid: "validate ex_compiler (\<lambda>_. StatDir) ex_cfg = []"
  by code_simp

definition ex_served :: "string \<Rightarrow> config" where
  "ex_served path = ex_cfg\<lparr>c_server := \<lparr>c_listen = '':9256'', c_metrics_path = path\<rparr>\<rparr>"

lemma ex_served_valid: "has_prefix path ''/'' \<Longrightarrow> validate ex_compiler (\<lambda>_. StatDir) (ex_served path) = []"
  using ex_cfg_valid by (simp add: validate_def ex_served_def check_Nil)

definition ex_deps :: api_deps where
  "ex_deps = \<lparr>dp_config = ex_cfg, dp_metrics = registry_new, dp_version = ''1'', dp_started_at = 0\<rparr>"

theorem routes_registered_witness:
  "api_new (c_server (ex_served ''/groups'')) ex_deps = None
    \<and> (\<exists>s. api_new (c_server (ex_served ''/metrics'')) ex_deps = Some s
        \<and> map fst (sv_routes s) = ''/metrics'' # fixed_routes)"
proof -
  have srv: "c_metrics_path (c_server (ex_served path)) = path" for path by (simp add: ex_served_def)
  have "has_prefix ''/groups'' ''/''" "has_prefix ''/metrics'' ''/''" by (simp_all add: has_prefix_iff)
  note v = this [THEN ex_served_valid]
  show ?thesis
    using routes_registered [OF v(1) _ refl, where d = ex_deps and now = 0] routes_registered [OF v(2) _ refl, where d = ex_deps and now = 0]
    by (auto simp: srv plain_path_def fixed_routes_def)
qed

theorem ready_after_two_scans_witness:
  "\<exists>a r. publish_run [ex_input, ex_input] (aggregator_new ex_sys, registry_new) = (a, r)
    \<and> rp_code (handle_readyz (ex_server r)) = 200"
proof -
  obtain a r where r: "publish_run [ex_input, ex_input] (aggregator_new ex_sys, registry_new) = (a, r)"
    by (cases "publish_run [ex_input, ex_input] (aggregator_new ex_sys, registry_new)")
  have "rp_code (handle_readyz (ex_server r)) = 200"
    using ready_after_two_scans [OF r, of "ex_server r"] by (simp add: ex_server_def)
  with r show ?thesis by blast
qed

fun ex_insert :: "('a \<Rightarrow> 'a \<Rightarrow> bool) \<Rightarrow> 'a \<Rightarrow> 'a list \<Rightarrow> 'a list" where
  "ex_insert lt x [] = [x]"
| "ex_insert lt x (y # ys) = (if lt y x then y # ex_insert lt x ys else x # y # ys)"

definition ex_sort :: "('a \<Rightarrow> 'a \<Rightarrow> bool) \<Rightarrow> 'a list \<Rightarrow> 'a list" where
  "ex_sort lt xs = foldr (ex_insert lt) xs []"

lemma mset_ex_insert: "mset (ex_insert lt x ys) = add_mset x (mset ys)"
  by (induction ys) auto

lemma set_ex_insert: "set (ex_insert lt x ys) = insert x (set ys)"
  by (induction ys) auto

lemma sorted_ex_insert:
  assumes "weak_order lt" and "sorted_wrt (\<lambda>a b. \<not> lt b a) ys"
  shows "sorted_wrt (\<lambda>a b. \<not> lt b a) (ex_insert lt x ys)"
  using assms(2)
proof (induction ys)
  case (Cons y ys)
  show ?case
  proof (cases "lt y x")
    case True
    then have "\<not> lt x y" using assms(1) unfolding weak_order_def by blast
    with True show ?thesis using Cons by (simp add: set_ex_insert)
  next
    case False
    have "\<not> lt z x" if "z \<in> set ys" for z
    proof -
      have "\<not> lt z y" using Cons.prems that by simp
      with False show ?thesis using assms(1) unfolding weak_order_def by blast
    qed
    then show ?thesis using Cons.prems False by simp
  qed
qed simp

lemma ex_sort_sorts: "sorts_slices ex_sort"
proof -
  have "mset (ex_sort lt xs) = mset xs" for lt and xs :: "'a list"
    by (induction xs) (simp_all add: ex_sort_def mset_ex_insert)
  moreover have "weak_order lt \<Longrightarrow> sorted_wrt (\<lambda>a b. \<not> lt b a) (ex_sort lt xs)" for lt and xs :: "'a list"
    by (induction xs) (simp_all add: ex_sort_def sorted_ex_insert)
  ultimately show ?thesis by (simp add: sorts_slices_def)
qed


section \<open>Durations\<close>

theorem duration_round_trip_witness:
  "duration_unmarshal_yaml (Inr (duration_marshal (- 9223372036854775808))) (Inl ()) = Inr (- 9223372036854775808)
    \<and> duration_unmarshal_json (Inl ()) (Inr 15) = Inr (15 * second)"
  using duration_round_trip [of "- 9223372036854775808" "Inl ()" 15 "()"] by simp

section \<open>The watcher\<close>

text \<open>A decoder that finds nothing but a log level in every document.\<close>

definition ex_unmarshal :: unmarshaler where
  "ex_unmarshal = (\<lambda>_ _ c. Inr (c\<lparr>c_log := \<lparr>c_level = ''debug'', c_format = ''text''\<rparr>\<rparr>))"

definition ex_edited :: config where
  "ex_edited = ex_cfg\<lparr>c_log := \<lparr>c_level = ''debug'', c_format = ''text''\<rparr>\<rparr>"

definition ex_view :: file_view where
  "ex_view = \<lparr>fv_stat = Some (7, 30), fv_data = Inr ''log: {level: debug}'', fv_paths = (\<lambda>_. StatDir)\<rparr>"

definition ex_watcher :: watcher where
  "ex_watcher = watcher_new ''config.yaml'' ex_cfg (Some (1, 20))"

lemma ex_cfg_sound: "sound_config ex_compiler (wt_cur ex_watcher)"
  using ex_cfg_valid normalise_idempotent [of default_config]
  by (auto simp: sound_config_def ex_watcher_def watcher_new_def ex_cfg_def)

lemma ex_load: "load ex_compiler (\<lambda>_. StatDir) ex_unmarshal ''config.yaml'' (Inr bytes) = Inr ex_edited"
proof -
  have n: "normalise (default_config\<lparr>c_log := \<lparr>c_level = ''debug'', c_format = ''text''\<rparr>\<rparr>) = ex_edited"
    by (simp add: ex_edited_def ex_cfg_def normalise_def)
  have "validate ex_compiler (\<lambda>_. StatDir) ex_edited = []"
    using ex_cfg_valid by (simp add: validate_def ex_edited_def)
  with n show ?thesis by (simp add: load_def parse_def ex_unmarshal_def Let_def)
qed

lemma ex_edited_differs: "ex_edited \<noteq> ex_cfg"
proof -
  have "c_level (c_log ex_edited) \<noteq> c_level (c_log ex_cfg)"
    by (simp add: ex_edited_def ex_cfg_def normalise_def default_config_def)
  then show ?thesis by metis
qed

theorem reload_outcomes_witness:
  "current (reload ex_compiler ex_unmarshal False ex_view ex_watcher) = ex_edited"
proof -
  have "wt_path ex_watcher \<noteq> []" "fv_stat ex_view = Some (7, 30)" "wt_mtime ex_watcher = 1" "wt_path ex_watcher = ''config.yaml''"
    by (simp_all add: ex_watcher_def watcher_new_def ex_view_def)
  then show ?thesis
    using reload_outcomes [where w = ex_watcher and v = ex_view and mtime = 7 and sz = 30 and rc = ex_compiler
        and unmarshal = ex_unmarshal and force = False, OF _ _ refl refl] ex_load
    by (simp add: ex_view_def)
qed

lemma ex_reload: "reload ex_compiler ex_unmarshal False ex_view (subscribe ex_watcher)
    = ex_watcher\<lparr>wt_mtime := 7, wt_size := 30, wt_cur := ex_edited, wt_subs := [Some ex_edited]\<rparr>"
  using ex_load ex_edited_differs
  by (simp add: reload_def reload_file_def ex_view_def subscribe_def ex_watcher_def watcher_new_def Let_def
      config_equal_def publish_config_def publish_channel_newest)

lemma ex_delivered:
  obtains s where "(watcher_step ex_compiler ex_unmarshal)\<^sup>*\<^sup>* (start_delivery ex_watcher) s" "dl_phase s = Idle"
    "wt_cur (dl_watcher s) = ex_edited" "wt_subs (dl_watcher s) = [Some ex_edited]" "dl_offers s \<noteq> []"
proof -
  let ?s0 = "start_delivery ex_watcher"
  let ?s1 = "?s0\<lparr>dl_watcher := subscribe (dl_watcher ?s0), dl_logs := dl_logs ?s0 @ [[]], dl_offers := dl_offers ?s0 @ [[]]\<rparr>"
  have 1: "watcher_step ex_compiler ex_unmarshal ?s0 ?s1"
    by (rule watcher_step.subscribing) (simp add: start_delivery_def)
  have "dl_phase ?s1 = Idle" "dl_watcher ?s1 = subscribe ex_watcher" by (simp_all add: start_delivery_def)
  from reload_runs [OF this(1) refl, of ex_compiler ex_unmarshal False ex_view]
  obtain offers where 2: "(watcher_step ex_compiler ex_unmarshal)\<^sup>*\<^sup>* ?s1
      (?s1\<lparr>dl_watcher := reload ex_compiler ex_unmarshal False ex_view (subscribe ex_watcher), dl_offers := offers\<rparr>)"
    and o: "offers = dl_offers ?s1 \<or> offers = map (\<lambda>os. os @ [current (reload ex_compiler ex_unmarshal False ex_view (subscribe ex_watcher))]) (dl_offers ?s1)"
    by (auto simp: start_delivery_def)
  show thesis
    by (rule that [OF converse_rtranclp_into_rtranclp [OF 1 2]])
       (use o in \<open>auto simp: start_delivery_def ex_reload\<close>)
qed

theorem configs_in_force_are_usable_witness:
  "\<exists>s. (watcher_step ex_compiler ex_unmarshal)\<^sup>*\<^sup>* (start_delivery ex_watcher) s \<and> wt_cur (dl_watcher s) = ex_edited
    \<and> sound_config ex_compiler ex_edited"
proof -
  obtain s where s: "(watcher_step ex_compiler ex_unmarshal)\<^sup>*\<^sup>* (start_delivery ex_watcher) s"
    "wt_cur (dl_watcher s) = ex_edited" by (rule ex_delivered)
  have "wt_subs ex_watcher = []" by (simp add: ex_watcher_def watcher_new_def)
  with configs_in_force_are_usable [OF s(1) ex_cfg_sound, of ex_edited] s show ?thesis by auto
qed

theorem newest_config_delivered_witness:
  "\<exists>s. (watcher_step ex_compiler ex_unmarshal)\<^sup>*\<^sup>* (start_delivery ex_watcher) s
    \<and> subseq (dl_logs s ! 0 @ [ex_edited]) (dl_offers s ! 0)"
proof -
  obtain s where s: "(watcher_step ex_compiler ex_unmarshal)\<^sup>*\<^sup>* (start_delivery ex_watcher) s" "dl_phase s = Idle"
    "wt_subs (dl_watcher s) = [Some ex_edited]" by (rule ex_delivered)
  have "wt_subs ex_watcher = []" by (simp add: ex_watcher_def watcher_new_def)
  from newest_config_delivered [OF s(1) ex_cfg_sound this s(2), of 0] s(1,3) show ?thesis
    by (auto simp: chan_items_def)
qed


text \<open>A publication to a subscriber whose channel is full; afterwards the watched file cannot be read.\<close>

definition ex_publication :: "nat \<Rightarrow> delivery" where
  "ex_publication i =
     \<lparr>dl_watcher = ex_watcher\<lparr>wt_subs := [if i \<le> 1 then Some ex_cfg else if i = 2 then None else Some ex_edited]\<rparr>,
      dl_phase = (if i = 0 then Sending ex_edited 0 else if i = 1 then Draining ex_edited 0
        else if i = 2 then Resending ex_edited 0 else if i = 3 then Sending ex_edited 1 else Idle),
      dl_logs = [[]], dl_offers = [[ex_edited]]\<rparr>"

lemma ex_publication_step: "watcher_step rc um (ex_publication i) (ex_publication (Suc i))"
proof -
  let ?v = "\<lparr>fv_stat = None, fv_data = Inr [], fv_paths = \<lambda>_. StatDir\<rparr>"
  have idle: "watcher_step rc um s s" if "dl_phase s = Idle" for s
  proof -
    have "reload_file rc um False ?v (dl_watcher s) = (dl_watcher s, None)" by (simp add: reload_file_def)
    from watcher_step.reloading [OF that this] that show ?thesis by (cases s) simp
  qed
  consider "i = 0" | "i = 1" | "i = 2" | "i = 3" | "3 < i" by linarith
  then show ?thesis
  proof cases
    case 1
    have "watcher_step rc um (ex_publication 0) (ex_publication 1)"
      using watcher_step.sending [of "ex_publication 0" ex_edited 0 "Some ex_cfg" False]
      by (simp add: ex_publication_def try_send_def set_chan_def)
    then show ?thesis using 1 by simp
  next
    case 2
    have "watcher_step rc um (ex_publication 1) (ex_publication 2)"
      using watcher_step.draining [of "ex_publication 1" ex_edited 0 None "Some ex_cfg"]
      by (simp add: ex_publication_def try_recv_def set_chan_def)
    then show ?thesis using 2 by (simp add: numeral_2_eq_2)
  next
    case 3
    have "watcher_step rc um (ex_publication 2) (ex_publication 3)"
      using watcher_step.resending [of "ex_publication 2" ex_edited 0 "Some ex_edited" True]
      by (simp add: ex_publication_def try_send_def set_chan_def)
    then show ?thesis using 3 by (simp add: numeral_3_eq_3 numeral_2_eq_2)
  next
    case 4
    have "watcher_step rc um (ex_publication 3) (ex_publication 4)"
      using watcher_step.finishing [of "ex_publication 3" ex_edited 1]
      by (simp add: ex_publication_def)
    then show ?thesis using 4 by (simp add: eval_nat_numeral)
  next
    case 5
    then have "ex_publication (Suc i) = ex_publication i" "dl_phase (ex_publication i) = Idle"
      by (simp_all add: ex_publication_def)
    then show ?thesis using idle by simp
  qed
qed

theorem publication_terminates_witness: "\<exists>k \<le> 9. dl_phase (ex_publication k) = Idle"
proof -
  have s: "dl_phase (ex_publication 0) = Sending ex_edited 0" "length (wt_subs (dl_watcher (ex_publication 0))) = 1"
    by (simp_all add: ex_publication_def)
  from publication_terminates [OF ex_publication_step [of ex_compiler ex_unmarshal] s(1)] s(2)
  show ?thesis by auto
qed

end
