(* ===== verification/Spec2Isabelle.thy ===== *)
theory Spec2Isabelle
  imports Witnesses ScrapeWitnesses
begin

text \<open>
  A model of process_exporter (Go, \<^verbatim>\<open>src/internal\<close>), a Prometheus exporter that reads \<^verbatim>\<open>/proc\<close>,
  groups the processes by a derived name and their user, and serves one set of metrics per group.

  \<^bold>\<open>The program.\<close> A scan lists the PIDs (\<^verbatim>\<open>procfs\<close>), reads the files of each process in stages, asks
  the \<^verbatim>\<open>filter\<close> whether the process counts and the \<^verbatim>\<open>namer\<close> what it is called, and compares its counters
  with those of the previous scan, which the state map of \<^verbatim>\<open>scan\<close> remembers per PID. The result goes to
  \<^verbatim>\<open>aggregate\<close>, which sums gauges per group and adds the differences to monotone accumulators that
  outlive the processes. The snapshot is published to \<^verbatim>\<open>metrics\<close>, from where a scrape collects it, and is
  shown by the handlers of \<^verbatim>\<open>api\<close>. \<^verbatim>\<open>config\<close> loads, validates and reloads the configuration and delivers
  it to subscribers over channels of capacity one.

  \<^bold>\<open>The theories\<close>, in the order of their imports:
  \<^item> \<open>Prelude\<close>: \<open>go_int\<close> (an \<open>int\<close> that every operation wraps to 64 bits), Go maps as association lists
    with distinct keys (\<open>gmap\<close>; lists because iteration and deletion are visible), lemmas on words.
  \<^item> \<open>Float64\<close>: \<^verbatim>\<open>float64\<close> as the rationals with rounding to 53 bits to nearest even; monotone and exact
    on integers up to \<open>2 ^ 53\<close>. Overflow to infinity is outside: no sum in the program comes near it.
  \<^item> \<open>GoStrings\<close>, \<open>GoIO\<close>, \<open>GoTime\<close>, \<open>Regexp\<close>: what the program uses of \<^verbatim>\<open>strings\<close>, \<^verbatim>\<open>strconv\<close>, \<^verbatim>\<open>bufio\<close>,
    \<^verbatim>\<open>os\<close>, \<^verbatim>\<open>time\<close> and \<^verbatim>\<open>regexp\<close>. Strings are byte lists. An expression is compiled to
    the instructions of \<^verbatim>\<open>regexp/syntax\<close> and run by the backtracking matcher; its parser is the parameter
    \<open>compiler\<close>.
  \<^item> \<open>ProcStat\<close>, \<open>ProcStatus\<close>, \<open>Procfs\<close>, \<open>ProcSystem\<close>: \<^verbatim>\<open>internal/procfs\<close>. A reader is a function of what the
    file or the directory returns, errors included.
  \<^item> \<open>StateMap\<close>: \<^verbatim>\<open>scan/state.go\<close>, and the locale \<open>pid_store\<close> that says what the scanner relies on.
  \<^item> \<open>Config\<close>, \<open>DurationText\<close>, \<open>Load\<close>: \<^verbatim>\<open>config.go\<close>, \<^verbatim>\<open>defaults.go\<close>, \<^verbatim>\<open>load.go\<close> of \<^verbatim>\<open>internal/config\<close>.
  \<^item> \<open>Watcher\<close>, \<open>WatcherSteps\<close>: \<^verbatim>\<open>watcher.go\<close>, as sequential operations over the locale \<open>slot_channel\<close>, and
    as a step relation in which subscribers receive between any two channel operations, with its invariant,
    its refinement of the sequential code and the bound on a publication.
  \<^item> \<open>ProcFilter\<close>, \<open>Namer\<close>: \<^verbatim>\<open>internal/filter\<close> and \<^verbatim>\<open>internal/namer\<close>.
  \<^item> \<open>Scan\<close>: \<^verbatim>\<open>scan/scan.go\<close>. \<^verbatim>\<open>readProcess\<close> is cut where it can return early; a stage returns \<open>Inl\<close> when
    the process is given up and \<open>Inr\<close> with its reading. \<open>ScanSteps\<close> proves stage by stage what is kept, over
    the locale \<open>read_stage\<close>; \<open>ScanProps\<close>, \<open>ScanReads\<close>, \<open>ScanCache\<close> are about whole scans.
  \<^item> \<open>Aggregate\<close>, \<open>AggregateProps\<close>: \<^verbatim>\<open>internal/aggregate\<close>, with the locale \<open>monotone_counter\<close>.
  \<^item> \<open>Metrics\<close>, \<open>MetricsProps\<close>, \<open>ScrapeCounters\<close>: \<^verbatim>\<open>internal/metrics\<close>. \<open>Pipeline\<close> composes scan, aggregation,
    publication and scrape. \<open>Api\<close>: \<^verbatim>\<open>internal/api\<close>.
  \<^item> \<open>Examples\<close>, \<open>Witnesses\<close>, \<open>ScrapeWitnesses\<close>: a concrete machine, and each property applied to it.

  \<^bold>\<open>State.\<close> \<open>scanner\<close> is the \<^verbatim>\<open>Scanner\<close> (its state map and user cache), \<open>aggregator\<close> the \<^verbatim>\<open>Aggregator\<close>,
  \<open>registry\<close> the \<^verbatim>\<open>Registry\<close> with the snapshot it holds, \<open>watcher\<close> the \<^verbatim>\<open>Watcher\<close>. Operations return the new
  state. A mutex makes an operation atomic and is not part of the state, except in \<open>WatcherSteps\<close>, where
  the interleaving inside \<^verbatim>\<open>publish\<close> is the point.

  \<^bold>\<open>What is shown.\<close> Scans: every listed process is counted once, the state map stays bounded and stamped, a
  reused PID inherits nothing, deltas add up to the growth of the counters, batching does not change the
  result, expensive files are read in their scheduled scans and the values stand still in between.
  Groups: a snapshot is exactly the sum of its members, counters never decrease as seen by two scrapes,
  forgotten groups are those past retention. Scrapes: no series twice, every label legal, omitted series
  exactly those without a readable member. Configurations: whatever is in force validated and compiles, a
  rejected reload changes nothing, subscribers end with the newest one. Text: the parsers read back the
  formats of proc(5), durations survive a round trip, names are legal labels.

  \<^bold>\<open>Bounds.\<close> All loops are total functions: the batch loop of a scan ends because the batch size is at least one,
  the matcher of \<open>Regexp\<close> by the set of states not yet visited, the loop of \<^verbatim>\<open>ParseDuration\<close> because every
  round consumes a character. No fuel is used. Generations and scan numbers are 64-bit; properties about
  sequences of scans assume fewer than \<open>2 ^ 64\<close> of them, and the counters property assumes that the 64-bit
  totals do not overflow, which the property states with \<open>counters_fit\<close>.

  \<^bold>\<open>Parameters.\<close> The contents of files and directories, the clock, whether the context is cancelled before a
  batch, the name service, the compiler of regular expressions, the document decoders of YAML and JSON, the
  stable or unstable order of \<^verbatim>\<open>sort.Slice\<close>, and the page size. The calls on the Prometheus client are kept
  as data in the order the program makes them.

  \<^bold>\<open>Not modelled.\<close> The encoders and decoders of JSON and YAML documents, the HTTP server and its request
  matching, the Prometheus client and its handler, log output, and the delivery of signals and ticks (they
  are events). \<^verbatim>\<open>cmd/process_exporter/main.go\<close> is named by the build script but is not in the repository,
  so the loop that calls \<^verbatim>\<open>Scan\<close>, \<^verbatim>\<open>Apply\<close> and \<^verbatim>\<open>Publish\<close> is represented by \<open>publish_run\<close> only.

  \<^bold>\<open>Findings.\<close> A metrics path that equals a fixed route passes validation and panics at start (\<open>Api\<close>). A file
  that was unreadable once is remembered as zero, so the next scan reports a lifetime as one delta; an
  unreadable command line turns a process into a kernel thread for the filter, an unreadable status into one
  of user 0 (\<open>ScanCache\<close>). A process without descriptors is a read error (\<open>Procfs\<close>). The offset between the
  expensive reads does not separate them for periods of two and three (\<open>ScanProps\<close>). Two state letters with
  one name overwrite each other (\<open>AggregateProps\<close>).
\<close>

end
